theory Spec2Isabelle
  imports Complex_Main "HOL-Library.Multiset"
begin

section \<open>Python values, exceptions and the store of list objects\<close>

text \<open>
  The two programs \<^verbatim>\<open>mar141.py\<close> and \<^verbatim>\<open>mar143.py\<close> composite image-sequence
  layers into a video. Exceptions are values of type \<open>error\<close>; a computation that may raise
  returns \<open>error + 'a\<close> with \<open>Inl\<close> for the exception.
\<close>

datatype error =
  ValueError | IndexError | OSError | AttributeError | CalledProcessError | ZeroDivisionError

type_synonym path = string

text \<open>
  A Python list is an object: \<^verbatim>\<open>layers[i] += [...]\<close> extends the list object in place
  and stores the same object back at index \<open>i\<close>. The store maps the address of a layer
  list to its current contents; \<^verbatim>\<open>layers\<close> itself is the list of these addresses.
\<close>

type_synonym ref = nat
type_synonym heap = "ref \<Rightarrow> path list"

definition py_max :: "nat list \<Rightarrow> error + nat" where
  \<comment> \<open>\<^verbatim>\<open>max(...)\<close> of an empty sequence raises ValueError.\<close>
  "py_max xs = (case xs of [] \<Rightarrow> Inl ValueError | x # rest \<Rightarrow> Inr (fold max rest x))"

definition py_last :: "'a list \<Rightarrow> error + 'a" where
  \<comment> \<open>\<^verbatim>\<open>xs[-1]\<close> raises IndexError on the empty list.\<close>
  "py_last xs = (if xs = [] then Inl IndexError else Inr (last xs))"

definition py_nth :: "'a list \<Rightarrow> nat \<Rightarrow> error + 'a" where
  \<comment> \<open>\<^verbatim>\<open>xs[i]\<close> for \<open>i \<ge> 0\<close> raises IndexError out of range.\<close>
  "py_nth xs i = (if i < length xs then Inr (xs ! i) else Inl IndexError)"

section \<open>Normalization: padding every layer to the longest one\<close>

text \<open>
  \<^verbatim>\<open>
  num_frames = max(len(layer) for layer in layers)
  for i in range(len(layers)):
      if len(layers[i]) < num_frames:
          layers[i] += [layers[i][-1]] * (num_frames - len(layers[i]))
  \<close>
  The same four lines open \<^verbatim>\<open>merge_layers\<close> of mar141 and close the path collection
  of \<^verbatim>\<open>start_merge\<close> in both files. \<open>pad_loop\<close> is the \<^verbatim>\<open>for\<close> loop over the indices
  still to visit; it returns the store as the loop leaves it, also when it raises.
\<close>

fun pad_loop :: "nat \<Rightarrow> ref list \<Rightarrow> nat list \<Rightarrow> heap \<Rightarrow> (error + unit) \<times> heap" where
  "pad_loop num_frames layers [] h = (Inr (), h)"
| "pad_loop num_frames layers (i # rest) h =
     (let layer = h (layers ! i) in
      if length layer < num_frames then
        (case py_last layer of
           Inl e \<Rightarrow> (Inl e, h)
         | Inr p \<Rightarrow>
             pad_loop num_frames layers rest
               (h(layers ! i := layer @ replicate (num_frames - length layer) p)))
      else pad_loop num_frames layers rest h)"

definition normalize_layers :: "ref list \<Rightarrow> heap \<Rightarrow> (error + nat) \<times> heap" where
  "normalize_layers layers h =
     (case py_max (map (\<lambda>r. length (h r)) layers) of
        Inl e \<Rightarrow> (Inl e, h)
      | Inr num_frames \<Rightarrow>
          (case pad_loop num_frames layers [0..<length layers] h of
             (Inl e, h') \<Rightarrow> (Inl e, h')
           | (Inr u, h') \<Rightarrow> (Inr num_frames, h')))"

text \<open>The caller's view of \<^verbatim>\<open>layers\<close>: the contents of each layer list, in order.\<close>

definition view :: "ref list \<Rightarrow> heap \<Rightarrow> path list list" where
  "view layers h = map h layers"

text \<open>A store holding the given lists at the addresses \<open>0, 1, 2, \<dots>\<close>.\<close>

definition alloc :: "path list list \<Rightarrow> heap" where
  "alloc ls r = (if r < length ls then ls ! r else [])"

text \<open>What one iteration of the padding loop leaves in a layer list.\<close>

definition padded :: "nat \<Rightarrow> path list \<Rightarrow> path list" where
  "padded n l = (if length l < n then l @ replicate (n - length l) (last l) else l)"

section \<open>Images and the effect engine\<close>

text \<open>
  The image library is outside the repository. An image is its size and a term that records
  which library operations produced its pixels, so that two images are equal exactly when
  the same operations were applied to the same sources in the same order.
  \<^verbatim>\<open>Image.open\<close> raises an \<^verbatim>\<open>OSError\<close> (missing or undecodable file);
  \<^verbatim>\<open>Image.alpha_composite\<close> raises \<^verbatim>\<open>ValueError\<close> when the sizes differ.
  The library's checks of its own arguments (a blur radius or a colour component it
  rejects, an image mode a filter does not take) are not modelled.
\<close>

datatype raster =
    Decoded path
  | Converted string raster
  | GaussianBlur int raster
  | Fill "int \<times> int \<times> int \<times> int"
  | AlphaComposite raster raster

record image =
  isize :: "nat \<times> nat"
  data :: raster

type_synonym files = "path \<Rightarrow> (nat \<times> nat) option"

definition image_open :: "files \<Rightarrow> path \<Rightarrow> error + image" where
  "image_open fs p =
     (case fs p of None \<Rightarrow> Inl OSError
      | Some sz \<Rightarrow> Inr \<lparr>isize = sz, data = Decoded p\<rparr>)"

definition convert :: "string \<Rightarrow> image \<Rightarrow> image" where
  "convert m im = im\<lparr>data := Converted m (data im)\<rparr>"

definition image_new :: "nat \<times> nat \<Rightarrow> int \<times> int \<times> int \<times> int \<Rightarrow> image" where
  "image_new sz color = \<lparr>isize = sz, data = Fill color\<rparr>"

definition alpha_composite :: "image \<Rightarrow> image \<Rightarrow> error + image" where
  "alpha_composite im1 im2 =
     (if isize im1 \<noteq> isize im2 then Inl ValueError
      else Inr \<lparr>isize = isize im1, data = AlphaComposite (data im1) (data im2)\<rparr>)"

text \<open>
  \<^verbatim>\<open>
  def apply_blur(image, blur_amount):
      return image.filter(ImageFilter.GaussianBlur(radius=blur_amount))
  def apply_fog(image, fog_amount):
      fog = Image.new("RGBA", image.size, (255, 255, 255, fog_amount))
      return Image.alpha_composite(image.convert("RGBA"), fog)
  \<close>
\<close>

definition apply_blur :: "image \<Rightarrow> int \<Rightarrow> image" where
  "apply_blur im blur_amount = im\<lparr>data := GaussianBlur blur_amount (data im)\<rparr>"

definition apply_fog :: "image \<Rightarrow> int \<Rightarrow> error + image" where
  "apply_fog im fog_amount =
     (let fog = image_new (isize im) (255, 255, 255, fog_amount)
      in alpha_composite (convert ''RGBA'' im) fog)"

section \<open>Compositing one frame\<close>

text \<open>\<^verbatim>\<open>Image.open(path).convert("RGBA")\<close>, the first line of every compositing path.\<close>

definition open_rgba :: "files \<Rightarrow> path \<Rightarrow> error + image" where
  "open_rgba fs p =
     (case image_open fs p of Inl e \<Rightarrow> Inl e | Inr im \<Rightarrow> Inr (convert ''RGBA'' im))"

text \<open>
  The two gated effects, as every path writes them:
  \<^verbatim>\<open>
  if <index selected for blur> and blur_amount > 0: img = apply_blur(img, blur_amount)
  if <index selected for fog> and fog_amount > 0:   img = apply_fog(img, fog_amount)
  \<close>
\<close>

definition with_effects :: "bool \<Rightarrow> bool \<Rightarrow> int \<Rightarrow> int \<Rightarrow> image \<Rightarrow> error + image" where
  "with_effects in_blur in_fog blur_amount fog_amount im =
     (let im1 = (if in_blur \<and> blur_amount > 0 then apply_blur im blur_amount else im)
      in if in_fog \<and> fog_amount > 0 then apply_fog im1 fog_amount else Inr im1)"

text \<open>
  mar141's \<^verbatim>\<open>merge_layers\<close> takes \<^verbatim>\<open>blur_layers=None\<close> by default and tests
  \<^verbatim>\<open>blur_layers and layer_index in blur_layers\<close>; the other paths receive a list and
  test \<^verbatim>\<open>layer_index in blur_layers\<close>.
\<close>

definition selected141 :: "nat list option \<Rightarrow> nat \<Rightarrow> bool" where
  "selected141 ls k = (case ls of None \<Rightarrow> False | Some xs \<Rightarrow> xs \<noteq> [] \<and> k \<in> set xs)"

definition selected :: "nat list \<Rightarrow> nat \<Rightarrow> bool" where
  "selected xs k = (k \<in> set xs)"

text \<open>
  \<^verbatim>\<open>
  for layer_index, layer in enumerate(layers[1:], start=1):
      layer_image = Image.open(layer[i]).convert("RGBA")
      <gated blur>; <gated fog>
      merged_image = Image.alpha_composite(merged_image, layer_image)
  \<close>
  This loop is the same text in \<^verbatim>\<open>merge_layers\<close> of mar141 and in
  \<^verbatim>\<open>generate_merged_images\<close> of both files, up to the membership test, which is the
  parameters \<open>sb\<close> and \<open>sf\<close>.
\<close>

fun overlay :: "files \<Rightarrow> (nat \<Rightarrow> bool) \<Rightarrow> (nat \<Rightarrow> bool) \<Rightarrow> int \<Rightarrow> int \<Rightarrow> nat \<Rightarrow>
    nat \<Rightarrow> path list list \<Rightarrow> image \<Rightarrow> error + image" where
  "overlay fs sb sf ba fa i layer_index [] merged_image = Inr merged_image"
| "overlay fs sb sf ba fa i layer_index (layer # rest) merged_image =
     (case py_nth layer i of Inl e \<Rightarrow> Inl e | Inr p \<Rightarrow>
      case open_rgba fs p of Inl e \<Rightarrow> Inl e | Inr layer_image \<Rightarrow>
      case with_effects (sb layer_index) (sf layer_index) ba fa layer_image of
        Inl e \<Rightarrow> Inl e | Inr layer_image' \<Rightarrow>
      case alpha_composite merged_image layer_image' of Inl e \<Rightarrow> Inl e | Inr m \<Rightarrow>
      overlay fs sb sf ba fa i (Suc layer_index) rest m)"

text \<open>
  One frame of mar141's \<^verbatim>\<open>merge_layers\<close> and of mar141's
  \<^verbatim>\<open>generate_merged_images\<close>: the base is \<^verbatim>\<open>Image.open(layers[0][i]).convert("RGBA")\<close>
  and the loop starts at layer 1.
\<close>

definition base_layer :: "files \<Rightarrow> path list list \<Rightarrow> nat \<Rightarrow> error + image" where
  "base_layer fs layers i =
     (case py_nth layers 0 of Inl e \<Rightarrow> Inl e | Inr layer0 \<Rightarrow>
      case py_nth layer0 i of Inl e \<Rightarrow> Inl e | Inr p \<Rightarrow> open_rgba fs p)"

definition merge_frame141 :: "files \<Rightarrow> nat list option \<Rightarrow> nat list option \<Rightarrow> int \<Rightarrow> int \<Rightarrow>
    path list list \<Rightarrow> nat \<Rightarrow> error + image" where
  "merge_frame141 fs blur_layers fog_layers ba fa layers i =
     (case base_layer fs layers i of Inl e \<Rightarrow> Inl e | Inr merged_image \<Rightarrow>
      overlay fs (selected141 blur_layers) (selected141 fog_layers) ba fa i 1 (tl layers)
        merged_image)"

definition preview_frame141 :: "files \<Rightarrow> nat list \<Rightarrow> nat list \<Rightarrow> int \<Rightarrow> int \<Rightarrow>
    path list list \<Rightarrow> nat \<Rightarrow> error + image" where
  "preview_frame141 fs blur_layers fog_layers ba fa layers i =
     (case base_layer fs layers i of Inl e \<Rightarrow> Inl e | Inr merged_image \<Rightarrow>
      overlay fs (selected blur_layers) (selected fog_layers) ba fa i 1 (tl layers)
        merged_image)"

text \<open>
  One frame of mar143's \<^verbatim>\<open>generate_merged_images\<close>: the first layer passes through
  the gated effects with index 0 before it becomes \<^verbatim>\<open>merged_image\<close>.
\<close>

definition preview_frame143 :: "files \<Rightarrow> nat list \<Rightarrow> nat list \<Rightarrow> int \<Rightarrow> int \<Rightarrow>
    path list list \<Rightarrow> nat \<Rightarrow> error + image" where
  "preview_frame143 fs blur_layers fog_layers ba fa layers i =
     (case base_layer fs layers i of Inl e \<Rightarrow> Inl e | Inr first_layer \<Rightarrow>
      case with_effects (selected blur_layers 0) (selected fog_layers 0) ba fa first_layer of
        Inl e \<Rightarrow> Inl e | Inr merged_image \<Rightarrow>
      overlay fs (selected blur_layers) (selected fog_layers) ba fa i 1 (tl layers)
        merged_image)"

text \<open>
  \<^verbatim>\<open>generate_merged_images\<close>: \<^verbatim>\<open>num_frames = len(layers[0])\<close>, then one merged
  image per frame index, appended in order. The parameter \<open>frame\<close> is the body of the loop
  (\<open>preview_frame141\<close> or \<open>preview_frame143\<close>).
\<close>

fun collect_frames :: "(nat \<Rightarrow> error + image) \<Rightarrow> nat list \<Rightarrow> image list \<Rightarrow> error + image list" where
  "collect_frames frame [] merged_images = Inr merged_images"
| "collect_frames frame (i # rest) merged_images =
     (case frame i of Inl e \<Rightarrow> Inl e
      | Inr merged_image \<Rightarrow> collect_frames frame rest (merged_images @ [merged_image]))"

definition generate_merged_images141 :: "files \<Rightarrow> path list list \<Rightarrow> int \<Rightarrow> int \<Rightarrow> nat list \<Rightarrow>
    nat list \<Rightarrow> error + image list" where
  "generate_merged_images141 fs layers ba fa blur_layers fog_layers =
     (case py_nth layers 0 of Inl e \<Rightarrow> Inl e | Inr layer0 \<Rightarrow>
      collect_frames (preview_frame141 fs blur_layers fog_layers ba fa layers)
        [0..<length layer0] [])"

definition generate_merged_images143 :: "files \<Rightarrow> path list list \<Rightarrow> int \<Rightarrow> int \<Rightarrow> nat list \<Rightarrow>
    nat list \<Rightarrow> error + image list" where
  "generate_merged_images143 fs layers ba fa blur_layers fog_layers =
     (case py_nth layers 0 of Inl e \<Rightarrow> Inl e | Inr layer0 \<Rightarrow>
      collect_frames (preview_frame143 fs blur_layers fog_layers ba fa layers)
        [0..<length layer0] [])"

section \<open>Python floats\<close>

text \<open>
  Both progress expressions are evaluated in floating point: \<^verbatim>\<open>int / int\<close> is the
  correctly rounded quotient, and \<^verbatim>\<open>float * 100\<close> is the correctly rounded product.
  \<open>py_float x\<close> is the double nearest to the exact value \<open>x\<close>: 53 significant bits, ties
  to the even significand, gradual underflow below the exponent -1022. Overflow is left
  out: no value here exceeds 100. A float is represented by the rational it denotes.
\<close>

text \<open>\<^verbatim>\<open>int.bit_length()\<close>: the number of binary digits of a positive integer.\<close>

function bit_length :: "int \<Rightarrow> nat" where
  "bit_length n = (if n \<le> 0 then 0 else Suc (bit_length (n div 2)))"
  by pat_completeness auto
termination
  by (relation "measure nat") auto

declare bit_length.simps [simp del]

text \<open>The binary exponent of a positive rational: \<open>2\<^sup>e \<le> x < 2\<^sup>e\<^sup>+\<^sup>1\<close>.\<close>

definition ilog2 :: "rat \<Rightarrow> int" where
  "ilog2 x = (case quotient_of x of (p, q) \<Rightarrow>
     (let d = int (bit_length p) - int (bit_length q)
      in if x < 2 powi d then d - 1 else d))"

definition round_half_even :: "rat \<Rightarrow> int" where
  "round_half_even m =
     (let f = \<lfloor>m\<rfloor>; d = m - of_int f
      in if d < 1 / 2 then f else if 1 / 2 < d then f + 1
         else if even f then f else f + 1)"

definition py_float :: "rat \<Rightarrow> rat" where
  "py_float x =
     (if x = 0 then 0
      else (let a = \<bar>x\<bar>; e = max (ilog2 a) (- 1022); ulp = 2 powi (e - 52)
            in sgn x * of_int (round_half_even (a / ulp)) * ulp))"

section \<open>mar141: sequential merge into a video writer\<close>

text \<open>
  What \<^verbatim>\<open>merge_layers\<close> of mar141 can change: the caller's layer lists (the store), the
  frames handed to \<^verbatim>\<open>video_writer.write\<close> in order, and the values passed to
  \<^verbatim>\<open>progress_callback\<close> in order. \<^verbatim>\<open>(i + 1) / total_frames * 100\<close> rounds twice:
  the quotient, then the product.
\<close>

record world141 =
  store :: heap
  video :: "image list"
  progress :: "rat list"

fun frame_loop141 :: "files \<Rightarrow> nat list option \<Rightarrow> nat list option \<Rightarrow> int \<Rightarrow> int \<Rightarrow> bool \<Rightarrow>
    path list list \<Rightarrow> nat \<Rightarrow> nat list \<Rightarrow> world141 \<Rightarrow> (error + unit) \<times> world141" where
  "frame_loop141 fs bl fl ba fa cb layers total_frames [] w = (Inr (), w)"
| "frame_loop141 fs bl fl ba fa cb layers total_frames (i # rest) w =
     (case merge_frame141 fs bl fl ba fa layers i of
        Inl e \<Rightarrow> (Inl e, w)
      | Inr merged_image \<Rightarrow>
          (let w1 = w\<lparr>video := video w @ [merged_image]\<rparr>;
               w2 = (if cb
                     then w1\<lparr>progress := progress w1 @
                            [py_float (py_float (of_nat (i + 1) / of_nat total_frames) * 100)]\<rparr>
                     else w1)
           in frame_loop141 fs bl fl ba fa cb layers total_frames rest w2))"

text \<open>
  \<^verbatim>\<open>merge_layers(layers, output_video, fps, blur_amount, blur_layers, ...)\<close> of mar141:
  normalization, \<^verbatim>\<open>Image.open(layers[0][0])\<close> for the canvas size, then the frame loop.
  \<^verbatim>\<open>output_video\<close> and \<^verbatim>\<open>fps\<close> only reach the video writer and are left out;
  \<open>cb\<close> says whether a progress callback was given.
\<close>

definition first_image :: "files \<Rightarrow> path list list \<Rightarrow> error + image" where
  "first_image fs layers =
     (case py_nth layers 0 of Inl e \<Rightarrow> Inl e | Inr layer0 \<Rightarrow>
      case py_nth layer0 0 of Inl e \<Rightarrow> Inl e | Inr p \<Rightarrow> image_open fs p)"

definition merge_layers141 :: "files \<Rightarrow> ref list \<Rightarrow> int \<Rightarrow> int \<Rightarrow> nat list option \<Rightarrow>
    nat list option \<Rightarrow> bool \<Rightarrow> world141 \<Rightarrow> (error + unit) \<times> world141" where
  "merge_layers141 fs layers ba fa blur_layers fog_layers cb w =
     (case normalize_layers layers (store w) of
        (Inl e, h') \<Rightarrow> (Inl e, w\<lparr>store := h'\<rparr>)
      | (Inr num_frames, h') \<Rightarrow>
          (let w1 = w\<lparr>store := h'\<rparr> in
           case first_image fs (view layers h') of
             Inl e \<Rightarrow> (Inl e, w1)
           | Inr im \<Rightarrow>
               frame_loop141 fs blur_layers fog_layers ba fa cb (view layers h') num_frames
                 [0..<num_frames] w1))"

section \<open>mar143: frames staged in a temporary directory, encoded by ffmpeg\<close>

subsection \<open>Frame file names\<close>

text \<open>
  \<^verbatim>\<open>f"frame_{frame_index:05d}.png"\<close> on the writing side and the pattern
  \<^verbatim>\<open>frame_%05d.png\<close> on the encoder's side: decimal digits, padded with zeros on the
  left to at least five characters.
\<close>

fun dec :: "nat \<Rightarrow> string" where
  "dec n = (if n < 10 then [char_of (48 + n)]
            else dec (n div 10) @ [char_of (48 + n mod 10)])"

declare dec.simps [simp del]

definition zfill :: "nat \<Rightarrow> string \<Rightarrow> string" where
  "zfill w s = replicate (w - length s) CHR ''0'' @ s"

definition frame_name :: "nat \<Rightarrow> string" where
  "frame_name frame_index = ''frame_'' @ zfill 5 (dec frame_index) @ ''.png''"

text \<open>Reading a decimal string back, to tell the names of different frames apart.\<close>

definition undec :: "string \<Rightarrow> nat" where
  "undec s = foldl (\<lambda>a c. 10 * a + (of_char c - 48)) 0 s"

subsection \<open>The staging directory\<close>

text \<open>
  The path \<^verbatim>\<open>temp_frames\<close> is absent, a directory, or something else in the way.
  A directory is the list of its files, the newest write first, so that a lookup finds the
  latest version of a name.
\<close>

type_synonym entries = "(string \<times> image) list"

datatype node = Absent | Directory entries | RegularFile

definition makedirs :: "node \<Rightarrow> error + node" where
  \<comment> \<open>\<^verbatim>\<open>os.makedirs(temp_dir, exist_ok=True)\<close>\<close>
  "makedirs nd = (case nd of Absent \<Rightarrow> Inr (Directory [])
                  | Directory es \<Rightarrow> Inr (Directory es)
                  | RegularFile \<Rightarrow> Inl OSError)"

definition save :: "image \<Rightarrow> string \<Rightarrow> node \<Rightarrow> error + node" where
  \<comment> \<open>\<^verbatim>\<open>image.save(os.path.join(temp_dir, name))\<close>\<close>
  "save im name nd = (case nd of Directory es \<Rightarrow> Inr (Directory ((name, im) # es))
                      | _ \<Rightarrow> Inl OSError)"

text \<open>
  \<^verbatim>\<open>shutil.rmtree(temp_dir, ignore_errors=True)\<close> never raises: a removal that fails
  (\<^verbatim>\<open>temp_frames\<close> is a symbolic link to a directory, a file cannot be deleted) is
  passed over in silence. Whether the removal succeeds is the environment's answer:
  \<open>remove es\<close> is \<open>None\<close> when the directory holding \<open>es\<close> goes away, and
  \<open>Some left\<close> when it stays behind holding \<open>left\<close>.
\<close>

definition rmtree :: "(entries \<Rightarrow> entries option) \<Rightarrow> node \<Rightarrow> node" where
  "rmtree remove nd =
     (case nd of
        Directory es \<Rightarrow> (case remove es of None \<Rightarrow> Absent | Some left \<Rightarrow> Directory left)
      | _ \<Rightarrow> nd)"

text \<open>
  The encoder is given \<^verbatim>\<open>-i temp_frames/frame_%05d.png\<close>: it expands the pattern at
  0, 1, 2, \<dots> and reads until a name is missing. A directory of \<open>n\<close> files holds at
  most \<open>n\<close> names, which bounds the walk.
\<close>

fun read_sequence :: "entries \<Rightarrow> nat \<Rightarrow> nat \<Rightarrow> image list" where
  "read_sequence es 0 k = []"
| "read_sequence es (Suc fuel) k =
     (case map_of es (frame_name k) of
        None \<Rightarrow> []
      | Some im \<Rightarrow> im # read_sequence es fuel (Suc k))"

definition ffmpeg_input :: "node \<Rightarrow> image list" where
  "ffmpeg_input nd = (case nd of Directory es \<Rightarrow> read_sequence es (length es) 0 | _ \<Rightarrow> [])"

subsection \<open>process_frame\<close>

text \<open>
  \<^verbatim>\<open>
  merged = None
  for layer_index, path in enumerate(layer_paths):
      frame = Image.open(path).convert("RGBA")
      <gated blur>; <gated fog>
      if merged is None: merged = frame
      else: merged = Image.alpha_composite(merged, frame)
  frame_path = os.path.join(temp_dir, f"frame_{frame_index:05d}.png")
  merged.convert("RGB").save(frame_path)
  return frame_index
  \<close>
\<close>

fun process_layers :: "files \<Rightarrow> nat list \<Rightarrow> nat list \<Rightarrow> int \<Rightarrow> int \<Rightarrow> nat \<Rightarrow> path list \<Rightarrow>
    image option \<Rightarrow> error + image option" where
  "process_layers fs bl fl ba fa layer_index [] merged = Inr merged"
| "process_layers fs bl fl ba fa layer_index (p # rest) merged =
     (case open_rgba fs p of Inl e \<Rightarrow> Inl e | Inr frame \<Rightarrow>
      case with_effects (selected bl layer_index) (selected fl layer_index) ba fa frame of
        Inl e \<Rightarrow> Inl e | Inr frame' \<Rightarrow>
      case (case merged of None \<Rightarrow> Inr frame' | Some m \<Rightarrow> alpha_composite m frame') of
        Inl e \<Rightarrow> Inl e | Inr m' \<Rightarrow>
      process_layers fs bl fl ba fa (Suc layer_index) rest (Some m'))"

definition render_frame :: "files \<Rightarrow> nat list \<Rightarrow> nat list \<Rightarrow> int \<Rightarrow> int \<Rightarrow> path list \<Rightarrow>
    error + image" where
  \<comment> \<open>the image that \<^verbatim>\<open>process_frame\<close> saves: \<^verbatim>\<open>merged.convert("RGB")\<close>;
      on \<^verbatim>\<open>None\<close> the attribute access raises\<close>
  "render_frame fs bl fl ba fa layer_paths =
     (case process_layers fs bl fl ba fa 0 layer_paths None of
        Inl e \<Rightarrow> Inl e
      | Inr None \<Rightarrow> Inl AttributeError
      | Inr (Some merged) \<Rightarrow> Inr (convert ''RGB'' merged))"

definition process_frame :: "files \<Rightarrow> nat \<times> path list \<Rightarrow> node \<Rightarrow> nat list \<Rightarrow> nat list \<Rightarrow>
    int \<Rightarrow> int \<Rightarrow> error + nat \<times> node" where
  "process_frame fs frame_data temp_dir blur_layers fog_layers ba fa =
     (case frame_data of (frame_index, layer_paths) \<Rightarrow>
      case render_frame fs blur_layers fog_layers ba fa layer_paths of
        Inl e \<Rightarrow> Inl e
      | Inr im \<Rightarrow>
          (case save im (frame_name frame_index) temp_dir of
             Inl e \<Rightarrow> Inl e
           | Inr temp_dir' \<Rightarrow> Inr (frame_index, temp_dir')))"

subsection \<open>merge_layers\<close>

text \<open>
  What mar143's \<^verbatim>\<open>merge_layers\<close> can change: the staging directory, the values
  passed to the progress callback, the frames the encoder consumed (\<open>None\<close> while no
  video has been written), and a log of the steps in the order they happen.
\<close>

datatype event = MakeDirs | ProcessFrame nat | Ffmpeg | RmTree

record world143 =
  temp :: node
  calls :: "rat list"
  encoded :: "image list option"
  log :: "event list"

type_synonym job = "nat \<times> path list"

text \<open>\<^verbatim>\<open>layer_paths = [layer[i] for layer in image_paths]\<close>\<close>

fun layer_paths_at :: "path list list \<Rightarrow> nat \<Rightarrow> error + path list" where
  "layer_paths_at [] i = Inr []"
| "layer_paths_at (layer # rest) i =
     (case py_nth layer i of Inl e \<Rightarrow> Inl e | Inr p \<Rightarrow>
      case layer_paths_at rest i of Inl e \<Rightarrow> Inl e | Inr ps \<Rightarrow> Inr (p # ps))"

text \<open>
  \<^verbatim>\<open>
  frame_data = []
  for i in range(num_frames):
      layer_paths = [layer[i] for layer in image_paths]
      frame_data.append((i, layer_paths))
  \<close>
\<close>

fun frame_data_loop :: "path list list \<Rightarrow> nat list \<Rightarrow> job list \<Rightarrow> error + job list" where
  "frame_data_loop image_paths [] frame_data = Inr frame_data"
| "frame_data_loop image_paths (i # rest) frame_data =
     (case layer_paths_at image_paths i of Inl e \<Rightarrow> Inl e
      | Inr layer_paths \<Rightarrow> frame_data_loop image_paths rest (frame_data @ [(i, layer_paths)]))"

definition prepare_frame_data :: "path list list \<Rightarrow> error + nat \<times> job list" where
  "prepare_frame_data image_paths =
     (case py_nth image_paths 0 of Inl e \<Rightarrow> Inl e | Inr layer0 \<Rightarrow>
      case frame_data_loop image_paths [0..<length layer0] [] of
        Inl e \<Rightarrow> Inl e
      | Inr frame_data \<Rightarrow> Inr (length layer0, frame_data))"

text \<open>
  \<^verbatim>\<open>
  for i, _ in enumerate(pool.imap_unordered(process_func, frame_data)):
      if progress_callback:
          progress_callback((i + 1) * 100 / num_frames)
  \<close>
  The pool hands the results over in the order the workers finish. \<open>pool_loop\<close> walks
  the jobs in that order: the \<open>i\<close>-th completion has saved its frame when the loop body
  runs, and a job that raised re-raises there. The product \<^verbatim>\<open>(i + 1) * 100\<close> is an exact
  integer; the quotient is rounded once, and dividing by zero raises.
\<close>

fun pool_loop :: "files \<Rightarrow> nat list \<Rightarrow> nat list \<Rightarrow> int \<Rightarrow> int \<Rightarrow> bool \<Rightarrow> nat \<Rightarrow> nat \<Rightarrow>
    job list \<Rightarrow> world143 \<Rightarrow> (error + unit) \<times> world143" where
  "pool_loop fs bl fl ba fa cb num_frames i [] w = (Inr (), w)"
| "pool_loop fs bl fl ba fa cb num_frames i (jb # rest) w =
     (case process_frame fs jb (temp w) bl fl ba fa of
        Inl e \<Rightarrow> (Inl e, w)
      | Inr (frame_index, temp_dir') \<Rightarrow>
          (let w1 = w\<lparr>temp := temp_dir', log := log w @ [ProcessFrame frame_index]\<rparr>
           in if cb then
                (if num_frames = 0 then (Inl ZeroDivisionError, w1)
                 else pool_loop fs bl fl ba fa cb num_frames (Suc i) rest
                        (w1\<lparr>calls := calls w1 @
                             [py_float (of_nat ((i + 1) * 100) / of_nat num_frames)]\<rparr>))
              else pool_loop fs bl fl ba fa cb num_frames (Suc i) rest w1))"

text \<open>
  \<^verbatim>\<open>subprocess.run(ffmpeg_command, check=True)\<close>: whether the encoder exits with
  status 0 on the frames it finds is the environment's answer \<open>ffmpeg_ok\<close>.
\<close>

definition run_ffmpeg :: "(image list \<Rightarrow> bool) \<Rightarrow> world143 \<Rightarrow> (error + unit) \<times> world143" where
  "run_ffmpeg ffmpeg_ok w =
     (let frames = ffmpeg_input (temp w); w1 = w\<lparr>log := log w @ [Ffmpeg]\<rparr>
      in if ffmpeg_ok frames then (Inr (), w1\<lparr>encoded := Some frames\<rparr>)
         else (Inl CalledProcessError, w1))"

text \<open>The body of the \<^verbatim>\<open>try\<close> block; \<open>sched\<close> is the completion order of the pool.\<close>

definition try_body :: "files \<Rightarrow> (job list \<Rightarrow> job list) \<Rightarrow> (image list \<Rightarrow> bool) \<Rightarrow>
    path list list \<Rightarrow> int \<Rightarrow> int \<Rightarrow> nat list \<Rightarrow> nat list \<Rightarrow> bool \<Rightarrow> world143 \<Rightarrow>
    (error + unit) \<times> world143" where
  "try_body fs sched ffmpeg_ok image_paths ba fa blur_layers fog_layers cb w =
     (case prepare_frame_data image_paths of
        Inl e \<Rightarrow> (Inl e, w)
      | Inr (num_frames, frame_data) \<Rightarrow>
          (case pool_loop fs blur_layers fog_layers ba fa cb num_frames 0 (sched frame_data) w of
             (Inl e, w') \<Rightarrow> (Inl e, w')
           | (Inr u, w') \<Rightarrow> run_ffmpeg ffmpeg_ok w'))"

text \<open>
  \<^verbatim>\<open>
  os.makedirs(temp_dir, exist_ok=True)
  try: ...
  except Exception as e: raise e
  finally: shutil.rmtree(temp_dir, ignore_errors=True)
  \<close>
\<close>

definition merge_layers143 :: "files \<Rightarrow> (job list \<Rightarrow> job list) \<Rightarrow> (image list \<Rightarrow> bool) \<Rightarrow>
    (entries \<Rightarrow> entries option) \<Rightarrow> path list list \<Rightarrow> int \<Rightarrow> int \<Rightarrow> nat list \<Rightarrow> nat list \<Rightarrow>
    bool \<Rightarrow> world143 \<Rightarrow> (error + unit) \<times> world143" where
  "merge_layers143 fs sched ffmpeg_ok remove image_paths ba fa blur_layers fog_layers cb w =
     (case makedirs (temp w) of
        Inl e \<Rightarrow> (Inl e, w)
      | Inr d \<Rightarrow>
          (case try_body fs sched ffmpeg_ok image_paths ba fa blur_layers fog_layers cb
                  (w\<lparr>temp := d, log := log w @ [MakeDirs]\<rparr>) of
             (r, w') \<Rightarrow> (r, w'\<lparr>temp := rmtree remove (temp w'), log := log w' @ [RmTree]\<rparr>)))"

section \<open>Example environments\<close>

text \<open>A world in which nothing has happened yet and no staging directory exists.\<close>

definition fresh :: world143 where
  "fresh = \<lparr>temp = Absent, calls = [], encoded = None, log = []\<rparr>"

text \<open>An encoder that succeeds exactly when it finds at least one frame.\<close>

definition ffmpeg_accepts :: "image list \<Rightarrow> bool" where
  "ffmpeg_accepts frames = (frames \<noteq> [])"

text \<open>A removal that succeeds, and one that is refused and leaves everything in place.\<close>

definition removal_succeeds :: "entries \<Rightarrow> entries option" where
  "removal_succeeds es = None"

definition removal_refused :: "entries \<Rightarrow> entries option" where
  "removal_refused es = Some es"

text \<open>A world in which an interrupted earlier run has left one staged frame behind.\<close>

definition stale :: world143 where
  "stale = \<lparr>temp = Directory [(''frame_00000.png'', \<lparr>isize = (2, 2), data = Decoded ''old.png''\<rparr>)],
             calls = [], encoded = None, log = []\<rparr>"

section \<open>Properties of float rounding\<close>

text \<open>
  Rounding to the nearest double is monotone on the non-negative rationals, never negative
  there, and leaves representable values as they are.
\<close>

lemma bit_length_bounds:
  "0 < n \<Longrightarrow> 2 ^ (bit_length n - 1) \<le> n \<and> n < 2 ^ bit_length n"
proof (induction n rule: bit_length.induct)
  case (1 n)
  show ?case
  proof (cases "n div 2 = 0")
    case True
    with "1.prems" have "n = 1" by auto
    then show ?thesis
      by (simp add: bit_length.simps[of 1] bit_length.simps[of 0])
  next
    case False
    with "1.prems" have pos: "0 < n div 2" by auto
    from "1.prems" have nle: "\<not> n \<le> 0" by simp
    from "1.IH"[OF nle pos] have
      lo: "2 ^ (bit_length (n div 2) - 1) \<le> n div 2" and
      hi: "n div 2 < 2 ^ bit_length (n div 2)" by simp_all
    have bl: "bit_length n = Suc (bit_length (n div 2))"
      using nle by (subst bit_length.simps) simp
    have "0 < bit_length (n div 2)"
      using pos by (subst bit_length.simps) simp
    then obtain k where k: "bit_length (n div 2) = Suc k" by (cases "bit_length (n div 2)") auto
    from lo k have "2 * 2 ^ k \<le> 2 * (n div 2)" by simp
    also have "\<dots> \<le> n" by simp
    finally have a: "2 ^ (bit_length n - 1) \<le> n" by (simp add: bl k)
    from hi have "n div 2 + 1 \<le> 2 ^ bit_length (n div 2)" by simp
    then have "2 * (n div 2) + 2 \<le> 2 * 2 ^ bit_length (n div 2)" by simp
    moreover have "n < 2 * (n div 2) + 2" by presburger
    ultimately have b: "n < 2 ^ bit_length n" by (simp add: bl)
    from a b show ?thesis ..
  qed
qed

lemma ilog2_bounds:
  assumes "0 < x"
  shows "2 powi (ilog2 x) \<le> x \<and> x < 2 powi (ilog2 x + 1)"
proof -
  obtain p q where pq: "quotient_of x = (p, q)" by (cases "quotient_of x")
  then have q: "0 < q" and x: "x = of_int p / of_int q"
    by (simp_all add: quotient_of_denom_pos quotient_of_div)
  from assms q x have p: "0 < p" by (simp add: zero_less_divide_iff)
  define P where "P = bit_length p"
  define Q where "Q = bit_length q"
  define d where "d = int P - int Q"
  from bit_length_bounds[OF p] have plo: "2 ^ (P - 1) \<le> p" and phi: "p < 2 ^ P"
    by (simp_all add: P_def)
  from bit_length_bounds[OF q] have qlo: "2 ^ (Q - 1) \<le> q" and qhi: "q < 2 ^ Q"
    by (simp_all add: Q_def)
  have Ppos: "0 < P" using phi p by (cases P) auto
  have Qpos: "0 < Q" using qhi q by (cases Q) auto
  have rq: "0 < (of_int q :: rat)" using q by simp
  have e1: "(2::rat) powi (d + 1) = 2 ^ P / 2 ^ (Q - 1)"
  proof -
    have "d + 1 = int P - int (Q - 1)" using Qpos by (simp add: d_def)
    then show ?thesis by (simp add: power_int_diff)
  qed
  have e2: "(2::rat) powi (d - 1) = 2 ^ (P - 1) / 2 ^ Q"
  proof -
    have "d - 1 = int (P - 1) - int Q" using Ppos by (simp add: d_def)
    then show ?thesis by (simp add: power_int_diff)
  qed
  have up: "x < 2 powi (d + 1)"
  proof -
    have "of_int p < (2::rat) ^ P" using phi by (metis of_int_less_iff of_int_numeral of_int_power)
    moreover have "(2::rat) ^ (Q - 1) \<le> of_int q"
      using qlo by (metis of_int_le_iff of_int_numeral of_int_power)
    ultimately have "of_int p / of_int q < (2::rat) ^ P / 2 ^ (Q - 1)"
      by (intro frac_less) (use p in auto)
    then show ?thesis by (simp add: x e1)
  qed
  have lo: "2 powi (d - 1) \<le> x"
  proof -
    have "(2::rat) ^ (P - 1) \<le> of_int p"
      using plo by (metis of_int_le_iff of_int_numeral of_int_power)
    moreover have "of_int q \<le> (2::rat) ^ Q"
      using qhi by (metis less_imp_le of_int_le_iff of_int_numeral of_int_power)
    ultimately have "(2::rat) ^ (P - 1) / 2 ^ Q \<le> of_int p / of_int q"
      using rq p by (intro frac_le) auto
    then show ?thesis by (simp add: x e2)
  qed
  have il: "ilog2 x = (if x < 2 powi d then d - 1 else d)"
    by (simp add: ilog2_def pq d_def P_def Q_def Let_def)
  show ?thesis
  proof (cases "x < 2 powi d")
    case True
    with lo il show ?thesis by simp
  next
    case False
    with up il show ?thesis by simp
  qed
qed

lemma ilog2_mono:
  assumes "0 < x" and "x \<le> y"
  shows "ilog2 x \<le> ilog2 y"
proof (rule ccontr)
  assume "\<not> ilog2 x \<le> ilog2 y"
  then have "ilog2 y + 1 \<le> ilog2 x" by simp
  then have "(2::rat) powi (ilog2 y + 1) \<le> 2 powi (ilog2 x)"
    by (intro power_int_increasing) simp_all
  with ilog2_bounds[OF assms(1)] have "2 powi (ilog2 y + 1) \<le> x" by simp
  moreover from assms have "0 < y" by simp
  from ilog2_bounds[OF this] have "y < 2 powi (ilog2 y + 1)" by simp
  ultimately show False using assms(2) by simp
qed

lemma round_half_even_of_int [simp]: "round_half_even (of_int k) = k"
  by (simp add: round_half_even_def)

lemma round_half_even_floor:
  "\<lfloor>m\<rfloor> \<le> round_half_even m \<and> round_half_even m \<le> \<lfloor>m\<rfloor> + 1"
  by (simp add: round_half_even_def Let_def)

lemma round_half_even_mono:
  assumes "a \<le> b"
  shows "round_half_even a \<le> round_half_even b"
proof (cases "\<lfloor>a\<rfloor> = \<lfloor>b\<rfloor>")
  case True
  with assms have "a - of_int \<lfloor>a\<rfloor> \<le> b - of_int \<lfloor>b\<rfloor>" by simp
  with True show ?thesis
    by (auto simp: round_half_even_def Let_def)
next
  case False
  with assms have "\<lfloor>a\<rfloor> < \<lfloor>b\<rfloor>"
    by (meson floor_mono le_neq_trans)
  with round_half_even_floor[of a] round_half_even_floor[of b] show ?thesis by linarith
qed

lemma round_half_even_ge: "of_int k \<le> m \<Longrightarrow> k \<le> round_half_even m"
  using round_half_even_mono[of "of_int k" m] by simp

lemma round_half_even_le: "m \<le> of_int k \<Longrightarrow> round_half_even m \<le> k"
  using round_half_even_mono[of m "of_int k"] by simp


lemma py_float_pos:
  assumes "0 < x"
  shows "py_float x =
     of_int (round_half_even (x / 2 powi (max (ilog2 x) (- 1022) - 52))) *
       2 powi (max (ilog2 x) (- 1022) - 52)"
  using assms by (simp add: py_float_def Let_def)

lemma py_float_nonneg:
  assumes "0 \<le> x"
  shows "0 \<le> py_float x"
proof (cases "x = 0")
  case True
  then show ?thesis by (simp add: py_float_def)
next
  case False
  with assms have pos: "0 < x" by simp
  define u :: rat where "u = 2 powi (max (ilog2 x) (- 1022) - 52)"
  have u: "0 < u" by (simp add: u_def)
  with pos have "of_int 0 \<le> x / u" by simp
  then have "0 \<le> round_half_even (x / u)" by (rule round_half_even_ge)
  with u show ?thesis
    unfolding py_float_pos[OF pos] u_def[symmetric] by simp
qed

lemma py_float_upper:
  assumes "0 < x"
  shows "py_float x \<le> 2 powi (max (ilog2 x) (- 1022) + 1)"
proof -
  define e where "e = max (ilog2 x) (- 1022)"
  define u :: rat where "u = 2 powi (e - 52)"
  have u: "0 < u" by (simp add: u_def)
  have split: "(2::rat) powi (e + 1) = of_int (2 ^ 53) * u"
  proof -
    have "e + 1 = 53 + (e - 52)" by simp
    then have "(2::rat) powi (e + 1) = 2 powi (53 + (e - 52))" by (simp only:)
    also have "\<dots> = 2 powi 53 * 2 powi (e - 52)" by (rule power_int_add) simp
    finally show ?thesis by (simp add: u_def)
  qed
  from ilog2_bounds[OF assms] have "x < 2 powi (ilog2 x + 1)" by simp
  also have "\<dots> \<le> 2 powi (e + 1)"
    by (intro power_int_increasing) (simp_all add: e_def)
  finally have "x \<le> 2 powi (e + 1)" by simp
  then have "x \<le> of_int (2 ^ 53) * u" unfolding split .
  with u have "x / u \<le> of_int (2 ^ 53)" by (simp add: pos_divide_le_eq)
  then have "round_half_even (x / u) \<le> 2 ^ 53" by (rule round_half_even_le)
  then have "(of_int (round_half_even (x / u)) :: rat) \<le> of_int (2 ^ 53)"
    by (simp only: of_int_le_iff)
  with u have "of_int (round_half_even (x / u)) * u \<le> of_int (2 ^ 53) * u"
    by (simp only: mult_le_cancel_right_pos)
  then show ?thesis
    unfolding py_float_pos[OF assms] e_def[symmetric] u_def[symmetric] split .
qed

lemma py_float_lower:
  assumes "0 < x" and "- 1022 \<le> ilog2 x"
  shows "2 powi (ilog2 x) \<le> py_float x"
proof -
  define e where "e = ilog2 x"
  define u :: rat where "u = 2 powi (e - 52)"
  have u: "0 < u" by (simp add: u_def)
  have mx: "max e (- 1022) = e" using assms(2) by (simp add: e_def)
  have split: "(2::rat) powi e = of_int (2 ^ 52) * u"
  proof -
    have "e = 52 + (e - 52)" by simp
    then have "(2::rat) powi e = 2 powi (52 + (e - 52))" by (simp only:)
    also have "\<dots> = 2 powi 52 * 2 powi (e - 52)" by (rule power_int_add) simp
    finally show ?thesis by (simp add: u_def)
  qed
  from ilog2_bounds[OF assms(1)] have "2 powi e \<le> x" by (simp add: e_def)
  then have "of_int (2 ^ 52) * u \<le> x" unfolding split .
  with u have "of_int (2 ^ 52) \<le> x / u" by (simp add: pos_le_divide_eq)
  then have "2 ^ 52 \<le> round_half_even (x / u)" by (rule round_half_even_ge)
  then have "(of_int (2 ^ 52) :: rat) \<le> of_int (round_half_even (x / u))"
    by (simp only: of_int_le_iff)
  with u have "of_int (2 ^ 52) * u \<le> of_int (round_half_even (x / u)) * u"
    by (simp only: mult_le_cancel_right_pos)
  then show ?thesis
    unfolding py_float_pos[OF assms(1)] e_def[symmetric] mx u_def[symmetric] split .
qed

lemma py_float_mono:
  assumes "0 \<le> x" and "x \<le> y"
  shows "py_float x \<le> py_float y"
proof (cases "x = 0")
  case True
  from assms have "0 \<le> y" by simp
  from py_float_nonneg[OF this] True show ?thesis by (simp add: py_float_def)
next
  case False
  with assms have x: "0 < x" and y: "0 < y" by simp_all
  define ex where "ex = max (ilog2 x) (- 1022)"
  define ey where "ey = max (ilog2 y) (- 1022)"
  have le: "ex \<le> ey"
    using ilog2_mono[OF x assms(2)] by (simp add: ex_def ey_def)
  show ?thesis
  proof (cases "ex = ey")
    case True
    define u :: rat where "u = 2 powi (ex - 52)"
    have u: "0 < u" by (simp add: u_def)
    from assms(2) u have "x / u \<le> y / u" by (simp add: divide_right_mono)
    then have "round_half_even (x / u) \<le> round_half_even (y / u)"
      by (rule round_half_even_mono)
    then have "(of_int (round_half_even (x / u)) :: rat) \<le> of_int (round_half_even (y / u))"
      by (simp only: of_int_le_iff)
    with u have "of_int (round_half_even (x / u)) * u \<le> of_int (round_half_even (y / u)) * u"
      by (simp only: mult_le_cancel_right_pos)
    then show ?thesis
      unfolding py_float_pos[OF x] py_float_pos[OF y] ex_def[symmetric] ey_def[symmetric]
        True[symmetric] u_def[symmetric] .
  next
    case False
    with le have lt: "ex < ey" by simp
    have "- 1022 \<le> ex" by (simp add: ex_def)
    with lt have ny: "- 1022 \<le> ilog2 y" and eyy: "ey = ilog2 y"
      by (auto simp: ey_def max_def split: if_splits)
    have "py_float x \<le> 2 powi (ex + 1)"
      using py_float_upper[OF x] by (simp add: ex_def)
    also have "\<dots> \<le> 2 powi ey"
      using lt by (intro power_int_increasing) simp_all
    also have "\<dots> \<le> py_float y"
      using py_float_lower[OF y ny] by (simp add: eyy)
    finally show ?thesis .
  qed
qed

lemma py_float_consts:
  "py_float 1 = 1" "py_float 100 = 100"
  "py_float (1 - 1 / 2 ^ 53) = 1 - 1 / 2 ^ 53"
  "py_float (100 - 1 / 2 ^ 46) = 100 - 1 / 2 ^ 46"
  "py_float ((1 - 1 / 2 ^ 53) * 100) = 100 - 1 / 2 ^ 46"
  by code_simp+

section \<open>Properties of normalization\<close>

lemma py_max_Max: "xs \<noteq> [] \<Longrightarrow> py_max xs = Inr (Max (set xs))"
  by (cases xs) (simp_all add: py_max_def Max.set_eq_fold [symmetric])

lemma py_max_Inr: "py_max xs = Inr n \<Longrightarrow> xs \<noteq> [] \<and> n = Max (set xs)"
  by (cases xs) (simp_all add: py_max_def Max.set_eq_fold [symmetric])

lemma pad_loop_Inr:
  "pad_loop n layers js h = (Inr u, h') \<Longrightarrow>
   h' = (\<lambda>r. if r \<in> (\<lambda>i. layers ! i) ` set js then padded n (h r) else h r)"
proof (induction js arbitrary: h)
  case Nil
  then show ?case by simp
next
  case (Cons i rest)
  show ?case
  proof (cases "length (h (layers ! i)) < n")
    case True
    with Cons.prems have ne: "h (layers ! i) \<noteq> []"
      by (auto simp: py_last_def Let_def split: if_splits)
    let ?h1 = "h(layers ! i := h (layers ! i) @
                 replicate (n - length (h (layers ! i))) (last (h (layers ! i))))"
    from Cons.prems True ne have "pad_loop n layers rest ?h1 = (Inr u, h')"
      by (simp add: py_last_def Let_def)
    from Cons.IH[OF this] True show ?thesis
      by (auto simp: fun_eq_iff padded_def)
  next
    case False
    with Cons.prems have "pad_loop n layers rest h = (Inr u, h')"
      by (simp add: Let_def)
    from Cons.IH[OF this] False show ?thesis
      by (auto simp: fun_eq_iff padded_def)
  qed
qed

lemma pad_loop_ok:
  "\<forall>i\<in>set js. h (layers ! i) \<noteq> [] \<Longrightarrow> fst (pad_loop n layers js h) = Inr ()"
proof (induction js arbitrary: h)
  case Nil
  then show ?case by simp
next
  case (Cons i rest)
  then show ?case
    by (auto simp: py_last_def Let_def)
qed

lemma nth_image_upt: "(\<lambda>i. layers ! i) ` set [0..<length layers] = set layers"
proof -
  have "(\<lambda>i. layers ! i) ` set [0..<length layers] = (\<lambda>i. layers ! i) ` {0..<length layers}"
    by simp
  also have "\<dots> = set layers"
    by (auto simp: in_set_conv_nth)
  finally show ?thesis .
qed

lemma normalize_layers_Inr:
  assumes "normalize_layers layers h = (Inr n, h')"
  shows "layers \<noteq> [] \<and> n = Max ((\<lambda>r. length (h r)) ` set layers) \<and>
         h' = (\<lambda>r. if r \<in> set layers then padded n (h r) else h r)"
proof -
  from assms obtain m where m: "py_max (map (\<lambda>r. length (h r)) layers) = Inr m"
    by (auto simp: normalize_layers_def split: sum.splits)
  with assms obtain u where p: "pad_loop m layers [0..<length layers] h = (Inr u, h')" and "m = n"
    by (auto simp: normalize_layers_def split: sum.splits prod.splits)
  from py_max_Inr[OF m] have "layers \<noteq> []" "m = Max ((\<lambda>r. length (h r)) ` set layers)"
    by simp_all
  moreover from pad_loop_Inr[OF p]
  have "h' = (\<lambda>r. if r \<in> set layers then padded m (h r) else h r)"
    by (simp only: nth_image_upt)
  ultimately show ?thesis using \<open>m = n\<close> by blast
qed

lemma normalize_layers_ok:
  assumes "layers \<noteq> []" and "\<forall>r\<in>set layers. h r \<noteq> []"
  shows "\<exists>h'. normalize_layers layers h = (Inr (Max ((\<lambda>r. length (h r)) ` set layers)), h')"
proof -
  let ?n = "Max ((\<lambda>r. length (h r)) ` set layers)"
  have m: "py_max (map (\<lambda>r. length (h r)) layers) = Inr ?n"
    using assms(1) by (simp add: py_max_Max)
  have "fst (pad_loop ?n layers [0..<length layers] h) = Inr ()"
    using assms(2) by (intro pad_loop_ok) auto
  then obtain h' where p: "pad_loop ?n layers [0..<length layers] h = (Inr (), h')"
    by (cases "pad_loop ?n layers [0..<length layers] h") auto
  with m show ?thesis by (simp add: normalize_layers_def)
qed

text \<open>
  C1. For a non-empty list of non-empty layers, normalization returns the maximum layer
  length and leaves every layer at exactly that length: the entries below the original
  length are unchanged, every added position holds the layer's original last path, and a
  layer already at the maximum is unchanged.
\<close>

theorem normalize_layers_pads:
  assumes "layers \<noteq> []" and "\<forall>r\<in>set layers. h r \<noteq> []"
  shows "\<exists>h'. normalize_layers layers h = (Inr (Max ((\<lambda>r. length (h r)) ` set layers)), h') \<and>
     (\<forall>r\<in>set layers.
        length (h' r) = Max ((\<lambda>r. length (h r)) ` set layers) \<and>
        (\<forall>k<length (h r). h' r ! k = h r ! k) \<and>
        (\<forall>k. length (h r) \<le> k \<and> k < Max ((\<lambda>r. length (h r)) ` set layers)
              \<longrightarrow> h' r ! k = last (h r)) \<and>
        (length (h r) = Max ((\<lambda>r. length (h r)) ` set layers) \<longrightarrow> h' r = h r))"
proof -
  define n where "n = Max ((\<lambda>r. length (h r)) ` set layers)"
  from normalize_layers_ok[OF assms] obtain h' where
    run: "normalize_layers layers h = (Inr n, h')" unfolding n_def by blast
  from normalize_layers_Inr[OF run]
  have h': "h' = (\<lambda>r. if r \<in> set layers then padded n (h r) else h r)" by simp
  have "length (h' r) = n \<and> (\<forall>k<length (h r). h' r ! k = h r ! k) \<and>
        (\<forall>k. length (h r) \<le> k \<and> k < n \<longrightarrow> h' r ! k = last (h r)) \<and>
        (length (h r) = n \<longrightarrow> h' r = h r)" if r: "r \<in> set layers" for r
  proof -
    have le: "length (h r) \<le> n" unfolding n_def using r by simp
    show ?thesis
      using le r by (auto simp: h' padded_def nth_append)
  qed
  with run show ?thesis unfolding n_def by blast
qed

text \<open>The layers of lengths 3, 5 and 1 of the specification's padding example.\<close>

theorem normalize_layers_pads_witness:
  "[0, 1, 2] \<noteq> ([]::ref list) \<and>
   alloc [[''a1'', ''a2'', ''a3''], [''b1'', ''b2'', ''b3'', ''b4'', ''b5''], [''c1'']] 0 \<noteq> [] \<and>
   alloc [[''a1'', ''a2'', ''a3''], [''b1'', ''b2'', ''b3'', ''b4'', ''b5''], [''c1'']] 1 \<noteq> [] \<and>
   alloc [[''a1'', ''a2'', ''a3''], [''b1'', ''b2'', ''b3'', ''b4'', ''b5''], [''c1'']] 2 \<noteq> [] \<and>
   (\<exists>h'. normalize_layers [0, 1, 2]
           (alloc [[''a1'', ''a2'', ''a3''], [''b1'', ''b2'', ''b3'', ''b4'', ''b5''], [''c1'']])
         = (Inr 5, h') \<and>
      length (h' 0) = 5 \<and> h' 0 ! 2 = ''a3'' \<and> h' 0 ! 3 = ''a3'' \<and> h' 0 ! 4 = ''a3'' \<and>
      h' 1 = [''b1'', ''b2'', ''b3'', ''b4'', ''b5''] \<and>
      length (h' 2) = 5 \<and> h' 2 ! 0 = ''c1'' \<and> h' 2 ! 4 = ''c1'')"
proof -
  let ?h = "alloc [[''a1'', ''a2'', ''a3''], [''b1'', ''b2'', ''b3'', ''b4'', ''b5''], [''c1'']]"
  have ne: "[0, 1, 2] \<noteq> ([]::ref list)" by simp
  have full: "\<forall>r\<in>set [0, 1, 2]. ?h r \<noteq> []" by (simp add: alloc_def)
  have mx: "Max ((\<lambda>r. length (?h r)) ` set [0, 1, 2]) = 5" by (simp add: alloc_def)
  from normalize_layers_pads[OF ne full] obtain h' where
    run: "normalize_layers [0, 1, 2] ?h = (Inr 5, h')" and
    props: "\<forall>r\<in>set [0, 1, 2]. length (h' r) = 5 \<and> (\<forall>k<length (?h r). h' r ! k = ?h r ! k) \<and>
        (\<forall>k. length (?h r) \<le> k \<and> k < 5 \<longrightarrow> h' r ! k = last (?h r)) \<and>
        (length (?h r) = 5 \<longrightarrow> h' r = ?h r)"
    unfolding mx by blast
  have p0: "length (h' 0) = 5 \<and> h' 0 ! 2 = ''a3'' \<and> h' 0 ! 3 = ''a3'' \<and> h' 0 ! 4 = ''a3''"
    using props by (simp add: alloc_def)
  have p1: "h' 1 = [''b1'', ''b2'', ''b3'', ''b4'', ''b5'']"
    using props by (simp add: alloc_def)
  have p2: "length (h' 2) = 5 \<and> h' 2 ! 0 = ''c1'' \<and> h' 2 ! 4 = ''c1''"
    using props by (simp add: alloc_def)
  from full have each: "?h 0 \<noteq> [] \<and> ?h 1 \<noteq> [] \<and> ?h 2 \<noteq> []" by simp
  from ne each run p0 p1 p2 show ?thesis by blast
qed

text \<open>
  C8 as stated (normalization leaves the caller's path lists unchanged) fails: the loop
  extends the list object itself. With layers \<open>[a1, a2]\<close> and \<open>[b1]\<close>, the caller's
  second list is \<open>[b1, b1]\<close> afterwards.
\<close>

theorem normalize_layers_mutates_caller_lists:
  "alloc [[''a1'', ''a2''], [''b1'']] 1 = [''b1''] \<and>
   snd (normalize_layers [0, 1] (alloc [[''a1'', ''a2''], [''b1'']])) 1 = [''b1'', ''b1'']"
  by (simp add: normalize_layers_def py_max_def py_last_def alloc_def upt_rec Let_def)

text \<open>
  C8, amended. Normalization pads in place. When it completes with frame count \<open>n\<close>:
  list objects that are not among the layers are unchanged; every layer list has length
  \<open>n\<close> and still starts with its original entries; a layer list already of length
  \<open>n\<close> is unchanged; a shorter one has been extended by copies of its last path.
\<close>

theorem normalize_layers_in_place:
  assumes "normalize_layers layers h = (Inr n, h')"
  shows "(\<forall>r. r \<notin> set layers \<longrightarrow> h' r = h r) \<and>
         (\<forall>r\<in>set layers.
            length (h' r) = n \<and>
            take (length (h r)) (h' r) = h r \<and>
            (length (h r) = n \<longrightarrow> h' r = h r) \<and>
            (length (h r) < n \<longrightarrow>
               h' r = h r @ replicate (n - length (h r)) (last (h r))))"
proof -
  from normalize_layers_Inr[OF assms]
  have n: "n = Max ((\<lambda>r. length (h r)) ` set layers)"
    and h': "h' = (\<lambda>r. if r \<in> set layers then padded n (h r) else h r)"
    by simp_all
  have "length (h' r) = n \<and> take (length (h r)) (h' r) = h r \<and>
        (length (h r) = n \<longrightarrow> h' r = h r) \<and>
        (length (h r) < n \<longrightarrow> h' r = h r @ replicate (n - length (h r)) (last (h r)))"
    if r: "r \<in> set layers" for r
  proof -
    have "length (h r) \<le> n" unfolding n using r by simp
    then show ?thesis using r by (auto simp: h' padded_def)
  qed
  moreover have "\<forall>r. r \<notin> set layers \<longrightarrow> h' r = h r"
    by (simp add: h')
  ultimately show ?thesis by blast
qed

theorem normalize_layers_in_place_witness:
  "fst (normalize_layers [0, 1] (alloc [[''a1'', ''a2''], [''b1'']])) = Inr 2 \<and>
   snd (normalize_layers [0, 1] (alloc [[''a1'', ''a2''], [''b1'']])) 7 =
     alloc [[''a1'', ''a2''], [''b1'']] 7 \<and>
   snd (normalize_layers [0, 1] (alloc [[''a1'', ''a2''], [''b1'']])) 0 = [''a1'', ''a2''] \<and>
   snd (normalize_layers [0, 1] (alloc [[''a1'', ''a2''], [''b1'']])) 1 = [''b1'', ''b1'']"
proof -
  let ?h = "alloc [[''a1'', ''a2''], [''b1'']]"
  let ?h' = "snd (normalize_layers [0, 1] ?h)"
  have f: "fst (normalize_layers [0, 1] ?h) = Inr 2"
    by (simp add: normalize_layers_def py_max_def py_last_def alloc_def upt_rec Let_def)
  then have run: "normalize_layers [0, 1] ?h = (Inr 2, ?h')"
    by (simp add: prod_eq_iff)
  from normalize_layers_in_place[OF run]
  have "?h' 7 = ?h 7" and "?h' 0 = ?h 0" and
       "?h' 1 = ?h 1 @ replicate (2 - length (?h 1)) (last (?h 1))"
    by (simp_all add: alloc_def)
  then show ?thesis using f by (simp add: alloc_def)
qed

section \<open>Properties of the effects and of compositing\<close>

text \<open>A zero amount closes the gate, whatever the selection says.\<close>

lemma with_effects_no_blur:
  "with_effects in_blur in_fog 0 fa im = with_effects False in_fog ba fa im"
  by (simp add: with_effects_def)

lemma with_effects_no_fog:
  "with_effects in_blur in_fog ba 0 im = with_effects in_blur False ba fa im"
  by (simp add: with_effects_def)

lemma overlay_no_blur:
  "overlay fs sb sf 0 fa i k layers m = overlay fs (\<lambda>_. False) sf ba fa i k layers m"
proof (induction layers arbitrary: k m)
  case Nil
  show ?case by simp
next
  case (Cons layer rest)
  show ?case
    by (simp add: Cons.IH with_effects_no_blur[of "sb k" _ fa _ ba] split: sum.splits)
qed

lemma overlay_no_fog:
  "overlay fs sb sf ba 0 i k layers m = overlay fs sb (\<lambda>_. False) ba fa i k layers m"
proof (induction layers arbitrary: k m)
  case Nil
  show ?case by simp
next
  case (Cons layer rest)
  show ?case
    by (simp add: Cons.IH with_effects_no_fog[of _ "sf k" ba _ fa] split: sum.splits)
qed

lemma process_layers_no_blur:
  "process_layers fs bl fl 0 fa k ps m = process_layers fs [] fl ba fa k ps m"
proof (induction ps arbitrary: k m)
  case Nil
  show ?case by simp
next
  case (Cons p rest)
  show ?case
    by (simp add: Cons.IH selected_def with_effects_no_blur[of "k \<in> set bl" _ fa _ ba]
          split: sum.splits)
qed

lemma process_layers_no_fog:
  "process_layers fs bl fl ba 0 k ps m = process_layers fs bl [] ba fa k ps m"
proof (induction ps arbitrary: k m)
  case Nil
  show ?case by simp
next
  case (Cons p rest)
  show ?case
    by (simp add: Cons.IH selected_def with_effects_no_fog[of _ "k \<in> set fl" ba _ fa]
          split: sum.splits)
qed

lemma selected_Nil: "selected [] = (\<lambda>_. False)"
  by (simp add: selected_def fun_eq_iff)

lemma selected141_Nil: "selected141 (Some []) = (\<lambda>_. False)"
  by (simp add: selected141_def fun_eq_iff)

text \<open>The same for a whole frame of each path, and for the loops over the frames.\<close>

lemma collect_frames_cong:
  "(\<And>i. f i = g i) \<Longrightarrow> collect_frames f js acc = collect_frames g js acc"
  by (induction js arbitrary: acc) (simp_all split: sum.splits)

lemma frame_loop141_cong:
  "(\<And>i. merge_frame141 fs bl fl ba fa layers i = merge_frame141 fs bl' fl' ba' fa' layers i) \<Longrightarrow>
   frame_loop141 fs bl fl ba fa cb layers n js w = frame_loop141 fs bl' fl' ba' fa' cb layers n js w"
  by (induction js arbitrary: w) (simp_all add: Let_def split: sum.splits)

lemma pool_loop_cong:
  "(\<And>jb d. process_frame fs jb d bl fl ba fa = process_frame fs jb d bl' fl' ba' fa') \<Longrightarrow>
   pool_loop fs bl fl ba fa cb n i js w = pool_loop fs bl' fl' ba' fa' cb n i js w"
proof (induction js arbitrary: i w)
  case Nil
  show ?case by simp
next
  case (Cons jb rest)
  have step: "pool_loop fs bl fl ba fa cb n (Suc i) rest w0 =
      pool_loop fs bl' fl' ba' fa' cb n (Suc i) rest w0" for w0
    by (rule Cons.IH) (rule Cons.prems)
  show ?case
    unfolding pool_loop.simps Cons.prems step ..
qed


lemma merge_frame141_no_blur:
  "merge_frame141 fs bl fl 0 fa layers i = merge_frame141 fs (Some []) fl ba fa layers i"
  unfolding merge_frame141_def selected141_Nil
  by (simp add: overlay_no_blur[of fs "selected141 bl" _ fa _ _ _ _ ba] split: sum.splits)

lemma merge_frame141_no_fog:
  "merge_frame141 fs bl fl ba 0 layers i = merge_frame141 fs bl (Some []) ba fa layers i"
  unfolding merge_frame141_def selected141_Nil
  by (simp add: overlay_no_fog[of fs _ "selected141 fl" ba _ _ _ _ fa] split: sum.splits)

lemma preview_frame141_no_blur:
  "preview_frame141 fs bl fl 0 fa layers i = preview_frame141 fs [] fl ba fa layers i"
  unfolding preview_frame141_def selected_Nil
  by (simp add: overlay_no_blur[of fs "selected bl" _ fa _ _ _ _ ba] split: sum.splits)

lemma preview_frame141_no_fog:
  "preview_frame141 fs bl fl ba 0 layers i = preview_frame141 fs bl [] ba fa layers i"
  unfolding preview_frame141_def selected_Nil
  by (simp add: overlay_no_fog[of fs _ "selected fl" ba _ _ _ _ fa] split: sum.splits)

lemma preview_frame143_no_blur:
  "preview_frame143 fs bl fl 0 fa layers i = preview_frame143 fs [] fl ba fa layers i"
  unfolding preview_frame143_def selected_Nil
  by (simp add: overlay_no_blur[of fs "selected bl" _ fa _ _ _ _ ba]
        with_effects_no_blur[of "selected bl 0" _ fa _ ba] split: sum.splits)

lemma preview_frame143_no_fog:
  "preview_frame143 fs bl fl ba 0 layers i = preview_frame143 fs bl [] ba fa layers i"
  unfolding preview_frame143_def selected_Nil
  by (simp add: overlay_no_fog[of fs _ "selected fl" ba _ _ _ _ fa]
        with_effects_no_fog[of _ "selected fl 0" ba _ fa] split: sum.splits)

lemma process_frame_no_blur:
  "process_frame fs jb d bl fl 0 fa = process_frame fs jb d [] fl ba fa"
  by (simp add: process_frame_def render_frame_def
        process_layers_no_blur[of fs bl fl fa _ _ _ ba])

lemma process_frame_no_fog:
  "process_frame fs jb d bl fl ba 0 = process_frame fs jb d bl [] ba fa"
  by (simp add: process_frame_def render_frame_def
        process_layers_no_fog[of fs bl fl ba _ _ _ fa])

lemma merge_layers141_cong:
  assumes "\<And>i ls. merge_frame141 fs bl fl ba fa ls i = merge_frame141 fs bl' fl' ba' fa' ls i"
  shows "merge_layers141 fs layers ba fa bl fl cb w = merge_layers141 fs layers ba' fa' bl' fl' cb w"
proof -
  have "frame_loop141 fs bl fl ba fa cb ls n js w0 = frame_loop141 fs bl' fl' ba' fa' cb ls n js w0"
    for ls n js w0
    by (rule frame_loop141_cong) (rule assms)
  then show ?thesis
    by (simp add: merge_layers141_def Let_def split: prod.splits sum.splits)
qed

lemma merge_layers143_cong:
  assumes "\<And>jb d. process_frame fs jb d bl fl ba fa = process_frame fs jb d bl' fl' ba' fa'"
  shows "merge_layers143 fs sched ffmpeg_ok remove image_paths ba fa bl fl cb w =
         merge_layers143 fs sched ffmpeg_ok remove image_paths ba' fa' bl' fl' cb w"
proof -
  have "pool_loop fs bl fl ba fa cb n i js w0 = pool_loop fs bl' fl' ba' fa' cb n i js w0"
    for n i js w0
    by (rule pool_loop_cong) (rule assms)
  then have "try_body fs sched ffmpeg_ok image_paths ba fa bl fl cb w0 =
             try_body fs sched ffmpeg_ok image_paths ba' fa' bl' fl' cb w0" for w0
    by (simp add: try_body_def split: sum.splits prod.splits)
  then show ?thesis
    by (simp add: merge_layers143_def split: sum.splits)
qed

lemma generate_merged_images141_cong:
  assumes "\<And>i. preview_frame141 fs bl fl ba fa layers i = preview_frame141 fs bl' fl' ba' fa' layers i"
  shows "generate_merged_images141 fs layers ba fa bl fl =
         generate_merged_images141 fs layers ba' fa' bl' fl'"
proof -
  have "collect_frames (preview_frame141 fs bl fl ba fa layers) js acc =
        collect_frames (preview_frame141 fs bl' fl' ba' fa' layers) js acc" for js acc
    by (rule collect_frames_cong) (rule assms)
  then show ?thesis
    by (simp add: generate_merged_images141_def split: sum.splits)
qed

lemma generate_merged_images143_cong:
  assumes "\<And>i. preview_frame143 fs bl fl ba fa layers i = preview_frame143 fs bl' fl' ba' fa' layers i"
  shows "generate_merged_images143 fs layers ba fa bl fl =
         generate_merged_images143 fs layers ba' fa' bl' fl'"
proof -
  have "collect_frames (preview_frame143 fs bl fl ba fa layers) js acc =
        collect_frames (preview_frame143 fs bl' fl' ba' fa' layers) js acc" for js acc
    by (rule collect_frames_cong) (rule assms)
  then show ?thesis
    by (simp add: generate_merged_images143_def split: sum.splits)
qed

text \<open>
  C6. In every compositing path, compositing with \<^verbatim>\<open>blur_amount = 0\<close> gives the same
  result as compositing with no blur layer selected (at any blur amount), and compositing
  with \<^verbatim>\<open>fog_amount = 0\<close> the same as with no fog layer selected: for the whole run of
  \<^verbatim>\<open>merge_layers\<close> in both files (frames, progress, store, staging and log), for
  \<^verbatim>\<open>generate_merged_images\<close> in both files, and for \<^verbatim>\<open>process_frame\<close>.
\<close>

theorem zero_amount_disables_effect:
  "merge_layers141 fs refs 0 fa bl141 fl141 cb w141 =
     merge_layers141 fs refs ba fa (Some []) fl141 cb w141 \<and>
   merge_layers141 fs refs ba 0 bl141 fl141 cb w141 =
     merge_layers141 fs refs ba fa bl141 (Some []) cb w141 \<and>
   generate_merged_images141 fs layers 0 fa bl fl = generate_merged_images141 fs layers ba fa [] fl \<and>
   generate_merged_images141 fs layers ba 0 bl fl = generate_merged_images141 fs layers ba fa bl [] \<and>
   generate_merged_images143 fs layers 0 fa bl fl = generate_merged_images143 fs layers ba fa [] fl \<and>
   generate_merged_images143 fs layers ba 0 bl fl = generate_merged_images143 fs layers ba fa bl [] \<and>
   process_frame fs jb d bl fl 0 fa = process_frame fs jb d [] fl ba fa \<and>
   process_frame fs jb d bl fl ba 0 = process_frame fs jb d bl [] ba fa \<and>
   merge_layers143 fs sched ffmpeg_ok remove layers 0 fa bl fl cb w =
     merge_layers143 fs sched ffmpeg_ok remove layers ba fa [] fl cb w \<and>
   merge_layers143 fs sched ffmpeg_ok remove layers ba 0 bl fl cb w =
     merge_layers143 fs sched ffmpeg_ok remove layers ba fa bl [] cb w"
proof -
  have a1: "merge_layers141 fs refs 0 fa bl141 fl141 cb w141 =
            merge_layers141 fs refs ba fa (Some []) fl141 cb w141"
    by (rule merge_layers141_cong) (rule merge_frame141_no_blur)
  have a2: "merge_layers141 fs refs ba 0 bl141 fl141 cb w141 =
            merge_layers141 fs refs ba fa bl141 (Some []) cb w141"
    by (rule merge_layers141_cong) (rule merge_frame141_no_fog)
  have b1: "generate_merged_images141 fs layers 0 fa bl fl =
            generate_merged_images141 fs layers ba fa [] fl"
    by (rule generate_merged_images141_cong) (rule preview_frame141_no_blur)
  have b2: "generate_merged_images141 fs layers ba 0 bl fl =
            generate_merged_images141 fs layers ba fa bl []"
    by (rule generate_merged_images141_cong) (rule preview_frame141_no_fog)
  have c1: "generate_merged_images143 fs layers 0 fa bl fl =
            generate_merged_images143 fs layers ba fa [] fl"
    by (rule generate_merged_images143_cong) (rule preview_frame143_no_blur)
  have c2: "generate_merged_images143 fs layers ba 0 bl fl =
            generate_merged_images143 fs layers ba fa bl []"
    by (rule generate_merged_images143_cong) (rule preview_frame143_no_fog)
  have d1: "merge_layers143 fs sched ffmpeg_ok remove layers 0 fa bl fl cb w =
            merge_layers143 fs sched ffmpeg_ok remove layers ba fa [] fl cb w"
    by (rule merge_layers143_cong) (rule process_frame_no_blur)
  have d2: "merge_layers143 fs sched ffmpeg_ok remove layers ba 0 bl fl cb w =
            merge_layers143 fs sched ffmpeg_ok remove layers ba fa bl [] cb w"
    by (rule merge_layers143_cong) (rule process_frame_no_fog)
  from a1 a2 b1 b2 c1 c2 d1 d2 process_frame_no_blur[of fs jb d bl fl fa ba]
    process_frame_no_fog[of fs jb d bl fl ba fa]
  show ?thesis by blast
qed

text \<open>
  C2 (effects on layer 0 are applied before it becomes the base, in every path). With the
  single layer \<open>a.png\<close> selected for blur 5 and fog 128, mar141's \<^verbatim>\<open>merge_layers\<close>
  and \<^verbatim>\<open>generate_merged_images\<close> return the plain converted image, while mar143's
  \<^verbatim>\<open>generate_merged_images\<close> and \<^verbatim>\<open>process_frame\<close> blur and fog it.
\<close>

theorem merge_layers141_skips_base_effects:
  "video (snd (merge_layers141 (map_of [(''a.png'', (2, 2))]) [0] 5 128 (Some [0]) (Some [0]) True
      \<lparr>store = alloc [[''a.png'']], video = [], progress = []\<rparr>)) =
     [\<lparr>isize = (2, 2), data = Converted ''RGBA'' (Decoded ''a.png'')\<rparr>] \<and>
   generate_merged_images141 (map_of [(''a.png'', (2, 2))]) [[''a.png'']] 5 128 [0] [0] =
     Inr [\<lparr>isize = (2, 2), data = Converted ''RGBA'' (Decoded ''a.png'')\<rparr>] \<and>
   generate_merged_images143 (map_of [(''a.png'', (2, 2))]) [[''a.png'']] 5 128 [0] [0] =
     Inr [\<lparr>isize = (2, 2),
           data = AlphaComposite
                    (Converted ''RGBA'' (GaussianBlur 5 (Converted ''RGBA'' (Decoded ''a.png''))))
                    (Fill (255, 255, 255, 128))\<rparr>] \<and>
   process_frame (map_of [(''a.png'', (2, 2))]) (0, [''a.png'']) (Directory []) [0] [0] 5 128 =
     Inr (0, Directory [(''frame_00000.png'',
       \<lparr>isize = (2, 2),
        data = Converted ''RGB'' (AlphaComposite
                 (Converted ''RGBA'' (GaussianBlur 5 (Converted ''RGBA'' (Decoded ''a.png''))))
                 (Fill (255, 255, 255, 128)))\<rparr>)])"
  by code_simp

text \<open>In mar141 the base never passes through the gates, whatever is selected.\<close>

lemma merge_frame141_base_plain:
  "merge_frame141 fs bl fl ba fa [layer0] i = base_layer fs [layer0] i"
  by (simp add: merge_frame141_def split: sum.splits)

section \<open>Properties of mar143's merge_layers\<close>

subsection \<open>Frame data\<close>

lemma layer_paths_at_eq:
  "layer_paths_at ls i =
     (if \<forall>l\<in>set ls. i < length l then Inr (map (\<lambda>l. l ! i) ls) else Inl IndexError)"
  by (induction ls) (auto simp: py_nth_def)

lemma frame_data_loop_eq:
  "frame_data_loop ls js acc =
     (if \<forall>i\<in>set js. \<forall>l\<in>set ls. i < length l
      then Inr (acc @ map (\<lambda>i. (i, map (\<lambda>l. l ! i) ls)) js)
      else Inl IndexError)"
proof (induction js arbitrary: acc)
  case Nil
  show ?case by simp
next
  case (Cons i rest)
  show ?case
    by (simp add: layer_paths_at_eq Cons.IH)
qed

lemma all_below_iff:
  "(\<forall>i\<in>set [0..<n]. \<forall>l\<in>set ls. i < length l) \<longleftrightarrow> (\<forall>l\<in>set ls. n \<le> length l)"
proof
  assume a: "\<forall>i\<in>set [0..<n]. \<forall>l\<in>set ls. i < length l"
  show "\<forall>l\<in>set ls. n \<le> length l"
  proof
    fix l assume l: "l \<in> set ls"
    show "n \<le> length l"
    proof (rule ccontr)
      assume "\<not> n \<le> length l"
      then have "length l \<in> set [0..<n]" by simp
      with a l have "length l < length l" by blast
      then show False by simp
    qed
  qed
next
  assume "\<forall>l\<in>set ls. n \<le> length l"
  then show "\<forall>i\<in>set [0..<n]. \<forall>l\<in>set ls. i < length l" by fastforce
qed

lemma prepare_frame_data_eq:
  "prepare_frame_data ls =
     (if ls = [] then Inl IndexError
      else if \<forall>l\<in>set ls. length (hd ls) \<le> length l
      then Inr (length (hd ls), map (\<lambda>i. (i, map (\<lambda>l. l ! i) ls)) [0..<length (hd ls)])
      else Inl IndexError)"
proof (cases ls)
  case Nil
  then show ?thesis by (simp add: prepare_frame_data_def py_nth_def)
next
  case (Cons l0 rest)
  have "prepare_frame_data ls =
     (case frame_data_loop ls [0..<length l0] [] of
        Inl e \<Rightarrow> Inl e | Inr frame_data \<Rightarrow> Inr (length l0, frame_data))"
    using Cons by (simp add: prepare_frame_data_def py_nth_def)
  also have "\<dots> = (if \<forall>l\<in>set ls. length l0 \<le> length l
      then Inr (length l0, map (\<lambda>i. (i, map (\<lambda>l. l ! i) ls)) [0..<length l0])
      else Inl IndexError)"
    unfolding frame_data_loop_eq all_below_iff by simp
  finally show ?thesis using Cons by simp
qed

lemma prepare_frame_data_take:
  assumes "ls \<noteq> []" and "\<forall>l\<in>set ls. length (hd ls) \<le> length l"
  shows "prepare_frame_data (map (take (length (hd ls))) ls) = prepare_frame_data ls"
proof -
  let ?n = "length (hd ls)"
  let ?ts = "map (take ?n) ls"
  have hd: "length (hd ?ts) = ?n" using assms by (cases ls) auto
  have all: "\<forall>l\<in>set ?ts. length (hd ?ts) \<le> length l"
    using assms(2) by (auto simp: hd)
  have "map (\<lambda>i. (i, map (\<lambda>l. l ! i) ?ts)) [0..<?n] = map (\<lambda>i. (i, map (\<lambda>l. l ! i) ls)) [0..<?n]"
    by (rule map_cong) (auto)
  then show ?thesis
    using assms all by (simp add: prepare_frame_data_eq hd del: set_map map_map)
qed

subsection \<open>The staging directory and the log\<close>

lemma process_frame_dir:
  "process_frame fs jb (Directory es) bl fl ba fa = Inr (k, d) \<Longrightarrow>
   k = fst jb \<and> (\<exists>im. render_frame fs bl fl ba fa (snd jb) = Inr im \<and>
                  d = Directory ((frame_name k, im) # es))"
  by (cases jb) (auto simp: process_frame_def save_def split: sum.splits)

lemma pool_loop_dir:
  "pool_loop fs bl fl ba fa cb n i js w = (r, w') \<Longrightarrow> temp w = Directory es \<Longrightarrow>
   \<exists>es' ks. temp w' = Directory es' \<and> log w' = log w @ map ProcessFrame ks \<and>
            encoded w' = encoded w"
proof (induction js arbitrary: i w es)
  case Nil
  then have "w' = w" by simp
  with Nil show ?case by (intro exI[of _ es] exI[of _ "[]"]) simp
next
  case (Cons jb rest)
  show ?case
  proof (cases "process_frame fs jb (temp w) bl fl ba fa")
    case (Inl e)
    with Cons.prems have "w' = w" by simp
    with Cons.prems show ?thesis by (intro exI[of _ es] exI[of _ "[]"]) simp
  next
    case (Inr res)
    obtain k d where res: "res = (k, d)" by (cases res)
    from Inr res Cons.prems(2) obtain im where d: "d = Directory ((frame_name k, im) # es)"
      using process_frame_dir[of fs jb es bl fl ba fa k d] by auto
    define w1 where "w1 = w\<lparr>temp := d, log := log w @ [ProcessFrame k]\<rparr>"
    define w2 where "w2 = (if cb
         then w1\<lparr>calls := calls w1 @ [py_float (of_nat ((i + 1) * 100) / of_nat n)]\<rparr> else w1)"
    show ?thesis
    proof (cases "cb \<and> n = 0")
      case True
      with Cons.prems(1) Inr res have "w' = w1"
        by (simp add: w1_def Let_def)
      then show ?thesis
        by (intro exI[of _ "(frame_name k, im) # es"] exI[of _ "[k]"]) (simp add: w1_def d)
    next
      case False
      with Cons.prems(1) Inr res have run: "pool_loop fs bl fl ba fa cb n (Suc i) rest w2 = (r, w')"
        by (cases cb) (simp_all add: w1_def w2_def Let_def)
      have t2: "temp w2 = Directory ((frame_name k, im) # es)"
        by (simp add: w2_def w1_def d)
      from Cons.IH[OF run t2] obtain es' ks where
        "temp w' = Directory es'" "log w' = log w2 @ map ProcessFrame ks"
        "encoded w' = encoded w2" by blast
      moreover have "log w2 = log w @ [ProcessFrame k]" "encoded w2 = encoded w"
        by (simp_all add: w2_def w1_def)
      ultimately show ?thesis
        by (intro exI[of _ es'] exI[of _ "k # ks"]) simp
    qed
  qed
qed

lemma try_body_dir:
  assumes "try_body fs sched ffmpeg_ok image_paths ba fa bl fl cb w = (r, w')"
    and "temp w = Directory es"
  shows "\<exists>es' mid. temp w' = Directory es' \<and> log w' = log w @ mid \<and>
           MakeDirs \<notin> set mid \<and> RmTree \<notin> set mid"
proof (cases "prepare_frame_data image_paths")
  case (Inl e)
  with assms(1) have "w' = w" by (simp add: try_body_def)
  with assms(2) show ?thesis by (intro exI[of _ es] exI[of _ "[]"]) simp
next
  case (Inr nf)
  obtain n frame_data where nf: "nf = (n, frame_data)" by (cases nf)
  obtain r1 w1 where pl: "pool_loop fs bl fl ba fa cb n 0 (sched frame_data) w = (r1, w1)"
    by (cases "pool_loop fs bl fl ba fa cb n 0 (sched frame_data) w")
  from pool_loop_dir[OF pl assms(2)] obtain es1 ks where
    w1: "temp w1 = Directory es1" "log w1 = log w @ map ProcessFrame ks" by blast
  show ?thesis
  proof (cases r1)
    case (Inl e)
    with assms(1) Inr nf pl have "w' = w1" by (simp add: try_body_def)
    with w1 show ?thesis
      by (intro exI[of _ es1] exI[of _ "map ProcessFrame ks"]) auto
  next
    case (Inr u)
    with assms(1) \<open>prepare_frame_data image_paths = Inr nf\<close> nf pl
    have "run_ffmpeg ffmpeg_ok w1 = (r, w')" by (simp add: try_body_def)
    then have "temp w' = temp w1" "log w' = log w1 @ [Ffmpeg]"
      by (auto simp: run_ffmpeg_def Let_def split: if_splits)
    with w1 show ?thesis
      by (intro exI[of _ es1] exI[of _ "map ProcessFrame ks @ [Ffmpeg]"]) auto
  qed
qed

text \<open>
  C7 as stated (the staging directory never survives the operation) fails when the removal
  fails, because \<^verbatim>\<open>shutil.rmtree\<close> is told to ignore errors. With \<^verbatim>\<open>temp_frames\<close> a
  symbolic link to an empty directory, \<^verbatim>\<open>os.makedirs\<close> accepts it, the frame is staged,
  the removal is refused, and the run returns with the directory and its frame in place.
\<close>

theorem staging_directory_survives_refused_removal:
  "merge_layers143 (map_of [(''a.png'', (2, 2))]) id ffmpeg_accepts removal_refused [[''a.png'']]
       0 0 [] [] True \<lparr>temp = Directory [], calls = [], encoded = None, log = []\<rparr> =
     (Inr (),
      \<lparr>temp = Directory [(''frame_00000.png'', \<lparr>isize = (2, 2), data = Converted ''RGB'' (Converted ''RGBA'' (Decoded ''a.png''))\<rparr>)],
         calls = [100],
         encoded = Some [\<lparr>isize = (2, 2), data = Converted ''RGB'' (Converted ''RGBA'' (Decoded ''a.png''))\<rparr>],
         log = [MakeDirs, ProcessFrame 0, Ffmpeg, RmTree]\<rparr>)"
  by code_simp

text \<open>
  C7, amended. On every execution of mar143's \<^verbatim>\<open>merge_layers\<close>, however it ends (result
  \<open>r\<close>: success or any exception): if \<^verbatim>\<open>os.makedirs\<close> raises, nothing is processed and
  nothing has changed; otherwise the staging directory is there before any frame is
  processed, and \<^verbatim>\<open>shutil.rmtree\<close> runs exactly once, as the last step, with every frame
  and the encoder run before it. What is left at \<^verbatim>\<open>temp_frames\<close> is what that removal
  leaves: nothing whenever the removal succeeds.
\<close>

theorem staging_directory_removed_last:
  assumes "merge_layers143 fs sched ffmpeg_ok remove image_paths ba fa bl fl cb w = (r, w')"
  shows "(temp w = RegularFile \<longrightarrow> r = Inl OSError \<and> w' = w) \<and>
         (temp w \<noteq> RegularFile \<longrightarrow>
            (\<exists>mid. log w' = log w @ [MakeDirs] @ mid @ [RmTree] \<and>
                   MakeDirs \<notin> set mid \<and> RmTree \<notin> set mid) \<and>
            (\<exists>es. temp w' = rmtree remove (Directory es)) \<and>
            ((\<forall>es. remove es = None) \<longrightarrow> temp w' = Absent))"
proof (cases "temp w = RegularFile")
  case True
  with assms show ?thesis by (auto simp: merge_layers143_def makedirs_def)
next
  case False
  then obtain es where mk: "makedirs (temp w) = Inr (Directory es)"
    by (cases "temp w") (auto simp: makedirs_def)
  define w0 where "w0 = w\<lparr>temp := Directory es, log := log w @ [MakeDirs]\<rparr>"
  obtain r1 w1 where tb: "try_body fs sched ffmpeg_ok image_paths ba fa bl fl cb w0 = (r1, w1)"
    by (cases "try_body fs sched ffmpeg_ok image_paths ba fa bl fl cb w0")
  have "temp w0 = Directory es" by (simp add: w0_def)
  from try_body_dir[OF tb this] obtain es1 mid where
    w1: "temp w1 = Directory es1" "log w1 = log w0 @ mid"
        "MakeDirs \<notin> set mid" "RmTree \<notin> set mid" by blast
  from assms mk tb have w': "w' = w1\<lparr>temp := rmtree remove (temp w1), log := log w1 @ [RmTree]\<rparr>"
    by (simp add: merge_layers143_def w0_def)
  have left: "temp w' = rmtree remove (Directory es1)" by (simp add: w' w1)
  then have gone: "(\<forall>es. remove es = None) \<longrightarrow> temp w' = Absent"
    by (simp add: rmtree_def)
  have "log w' = log w @ [MakeDirs] @ mid @ [RmTree]"
    by (simp add: w' w1 w0_def)
  with False w1(3,4) left gone show ?thesis by blast
qed

text \<open>
  A run whose second frame cannot be opened, with a removal that succeeds: the first frame
  is staged, then removed with the directory.
\<close>

theorem staging_directory_removed_last_witness:
  "temp fresh \<noteq> RegularFile \<and>
   merge_layers143 (map_of [(''a.png'', (2, 2))]) id ffmpeg_accepts removal_succeeds
       [[''a.png'', ''gone.png'']] 0 0 [] [] True fresh =
     (Inl OSError, \<lparr>temp = Absent, calls = [50], encoded = None,
                     log = [MakeDirs, ProcessFrame 0, RmTree]\<rparr>) \<and>
   temp (snd (merge_layers143 (map_of [(''a.png'', (2, 2))]) id ffmpeg_accepts removal_succeeds
       [[''a.png'', ''gone.png'']] 0 0 [] [] True fresh)) = Absent"
proof -
  let ?w' = "\<lparr>temp = Absent, calls = [50], encoded = None,
              log = [MakeDirs, ProcessFrame 0, RmTree]\<rparr>"
  have run: "merge_layers143 (map_of [(''a.png'', (2, 2))]) id ffmpeg_accepts removal_succeeds
       [[''a.png'', ''gone.png'']] 0 0 [] [] True fresh = (Inl OSError, ?w')"
    by code_simp
  have ok: "temp fresh \<noteq> RegularFile" by (simp add: fresh_def)
  have rm: "\<forall>es. removal_succeeds es = None" by (simp add: removal_succeeds_def)
  from staging_directory_removed_last[OF run] ok rm have "temp ?w' = Absent" by blast
  with run ok show ?thesis by simp
qed

text \<open>
  C9. mar143's \<^verbatim>\<open>merge_layers\<close> takes the frame count from the first layer and does
  not pad. When no layer is shorter than the first, frame \<open>i\<close> gets the \<open>i\<close>-th path of
  every layer for \<open>i\<close> below the first layer's length, and the run is the one on the
  layers cut to that length: later entries do not matter. When some layer is shorter
  than the first, preparing the frame data raises \<^verbatim>\<open>IndexError\<close>: the run fails
  with it, no progress is reported and nothing is encoded.
\<close>

theorem merge_layers143_frame_count:
  assumes "image_paths \<noteq> []"
  shows "((\<forall>l\<in>set image_paths. length (hd image_paths) \<le> length l) \<longrightarrow>
            prepare_frame_data image_paths =
              Inr (length (hd image_paths),
                   map (\<lambda>i. (i, map (\<lambda>l. l ! i) image_paths)) [0..<length (hd image_paths)]) \<and>
            merge_layers143 fs sched ffmpeg_ok remove image_paths ba fa bl fl cb w =
              merge_layers143 fs sched ffmpeg_ok remove
                (map (take (length (hd image_paths))) image_paths) ba fa bl fl cb w) \<and>
         ((\<exists>l\<in>set image_paths. length l < length (hd image_paths)) \<longrightarrow>
            prepare_frame_data image_paths = Inl IndexError \<and>
            (temp w \<noteq> RegularFile \<longrightarrow>
               fst (merge_layers143 fs sched ffmpeg_ok remove image_paths ba fa bl fl cb w) =
                 Inl IndexError \<and>
               calls (snd (merge_layers143 fs sched ffmpeg_ok remove image_paths ba fa bl fl cb w)) =
                 calls w \<and>
               encoded (snd (merge_layers143 fs sched ffmpeg_ok remove image_paths ba fa bl fl cb w)) =
                 encoded w))"
proof (intro conjI impI)
  assume all: "\<forall>l\<in>set image_paths. length (hd image_paths) \<le> length l"
  with assms show "prepare_frame_data image_paths =
      Inr (length (hd image_paths),
           map (\<lambda>i. (i, map (\<lambda>l. l ! i) image_paths)) [0..<length (hd image_paths)])"
    by (simp add: prepare_frame_data_eq)
  have "try_body fs sched ffmpeg_ok (map (take (length (hd image_paths))) image_paths)
          ba fa bl fl cb w0 =
        try_body fs sched ffmpeg_ok image_paths ba fa bl fl cb w0" for w0
    unfolding try_body_def prepare_frame_data_take[OF assms all] ..
  then show "merge_layers143 fs sched ffmpeg_ok remove image_paths ba fa bl fl cb w =
        merge_layers143 fs sched ffmpeg_ok remove
          (map (take (length (hd image_paths))) image_paths) ba fa bl fl cb w"
    by (simp add: merge_layers143_def split: sum.splits)
next
  assume short: "\<exists>l\<in>set image_paths. length l < length (hd image_paths)"
  then have "\<not> (\<forall>l\<in>set image_paths. length (hd image_paths) \<le> length l)"
    by (meson not_less)
  with assms show err: "prepare_frame_data image_paths = Inl IndexError"
    by (simp add: prepare_frame_data_eq)
  assume "temp w \<noteq> RegularFile"
  then obtain d where mk: "makedirs (temp w) = Inr d"
    by (cases "temp w") (auto simp: makedirs_def)
  from err mk show
    "fst (merge_layers143 fs sched ffmpeg_ok remove image_paths ba fa bl fl cb w) = Inl IndexError"
    "calls (snd (merge_layers143 fs sched ffmpeg_ok remove image_paths ba fa bl fl cb w)) = calls w"
    "encoded (snd (merge_layers143 fs sched ffmpeg_ok remove image_paths ba fa bl fl cb w)) = encoded w"
    by (simp_all add: merge_layers143_def try_body_def)
qed

theorem merge_layers143_frame_count_witness:
  "prepare_frame_data [[''a0'', ''a1''], [''b0'', ''b1'', ''b2'']] =
     Inr (2, [(0, [''a0'', ''b0'']), (1, [''a1'', ''b1''])]) \<and>
   merge_layers143 (map_of []) id ffmpeg_accepts removal_succeeds [[''a0'', ''a1''], [''b0'', ''b1'', ''b2'']]
       0 0 [] [] True fresh =
   merge_layers143 (map_of []) id ffmpeg_accepts removal_succeeds [[''a0'', ''a1''], [''b0'', ''b1'']]
       0 0 [] [] True fresh \<and>
   prepare_frame_data [[''a0'', ''a1'', ''a2''], [''b0'']] = Inl IndexError \<and>
   fst (merge_layers143 (map_of []) id ffmpeg_accepts removal_succeeds [[''a0'', ''a1'', ''a2''], [''b0'']]
       0 0 [] [] True fresh) = Inl IndexError"
proof -
  let ?long = "[[''a0'', ''a1''], [''b0'', ''b1'', ''b2'']]"
  let ?short = "[[''a0'', ''a1'', ''a2''], [''b0'']]"
  have ne1: "?long \<noteq> []" and ne2: "?short \<noteq> []" by simp_all
  have all: "\<forall>l\<in>set ?long. length (hd ?long) \<le> length l" by simp
  have ex: "\<exists>l\<in>set ?short. length l < length (hd ?short)" by simp
  have ok: "temp fresh \<noteq> RegularFile" by (simp add: fresh_def)
  from merge_layers143_frame_count[OF ne1, of "map_of []" id ffmpeg_accepts removal_succeeds 0 0 "[]" "[]" True fresh]
    all
  have a: "prepare_frame_data ?long =
      Inr (length (hd ?long), map (\<lambda>i. (i, map (\<lambda>l. l ! i) ?long)) [0..<length (hd ?long)])"
    and b: "merge_layers143 (map_of []) id ffmpeg_accepts removal_succeeds ?long 0 0 [] [] True fresh =
      merge_layers143 (map_of []) id ffmpeg_accepts removal_succeeds (map (take (length (hd ?long))) ?long)
        0 0 [] [] True fresh"
    by blast+
  from merge_layers143_frame_count[OF ne2, of "map_of []" id ffmpeg_accepts removal_succeeds 0 0 "[]" "[]" True fresh]
    ex ok
  have c: "prepare_frame_data ?short = Inl IndexError"
    and d: "fst (merge_layers143 (map_of []) id ffmpeg_accepts removal_succeeds ?short 0 0 [] [] True fresh) =
      Inl IndexError"
    by blast+
  from a have a': "prepare_frame_data ?long = Inr (2, [(0, [''a0'', ''b0'']), (1, [''a1'', ''b1''])])"
    by (simp add: upt_rec)
  from b have b': "merge_layers143 (map_of []) id ffmpeg_accepts removal_succeeds ?long 0 0 [] [] True fresh =
      merge_layers143 (map_of []) id ffmpeg_accepts removal_succeeds [[''a0'', ''a1''], [''b0'', ''b1'']]
        0 0 [] [] True fresh"
    by simp
  from a' b' c d show ?thesis by blast
qed

subsection \<open>Frame names\<close>

text \<open>Different frame indices give different file names.\<close>

lemma undec_snoc: "undec (s @ [c]) = 10 * undec s + (of_char c - 48)"
  by (simp add: undec_def)

lemma undec_dec: "undec (dec n) = n"
proof (induction n rule: dec.induct)
  case (1 n)
  show ?case
  proof (cases "n < 10")
    case True
    then show ?thesis by (subst dec.simps) (simp add: undec_def)
  next
    case False
    have m: "(48 + n mod 10) mod 256 = 48 + n mod 10"
      by (rule mod_less) (simp add: less_le_trans[OF add_strict_left_mono[OF pos_mod_bound[of 10 n]]])
    from False have "undec (dec n) = 10 * undec (dec (n div 10)) + n mod 10"
      by (subst dec.simps) (simp add: undec_snoc m)
    with "1.IH"[OF False] show ?thesis by simp
  qed
qed

lemma undec_zeros: "undec (replicate k CHR ''0'' @ s) = undec s"
proof -
  have "foldl (\<lambda>a c. 10 * a + (of_char c - 48)) 0 (replicate k CHR ''0'') = (0::nat)"
    by (induction k) simp_all
  then show ?thesis by (simp add: undec_def)
qed

lemma undec_zfill: "undec (zfill w (dec n)) = n"
  by (simp add: zfill_def undec_zeros undec_dec)

lemma frame_name_inj: "frame_name a = frame_name b \<Longrightarrow> a = b"
proof -
  assume "frame_name a = frame_name b"
  then have "zfill 5 (dec a) = zfill 5 (dec b)" by (simp add: frame_name_def)
  then have "undec (zfill 5 (dec a)) = undec (zfill 5 (dec b))" by simp
  then show "a = b" by (simp add: undec_zfill)
qed


subsection \<open>What the pool leaves in the staging directory\<close>

lemma pool_loop_saves:
  assumes "pool_loop fs bl fl ba fa cb n i js w = (Inr u, w')"
    and "temp w = Directory es" and "distinct (map fst js)"
  shows "\<exists>es'. temp w' = Directory es' \<and> length es' = length es + length js \<and>
           (\<forall>jb\<in>set js. \<exists>im. render_frame fs bl fl ba fa (snd jb) = Inr im \<and>
                          map_of es' (frame_name (fst jb)) = Some im) \<and>
           (\<forall>name. name \<notin> frame_name ` fst ` set js \<longrightarrow> map_of es' name = map_of es name)"
  using assms
proof (induction js arbitrary: i w es)
  case Nil
  then show ?case by simp
next
  case (Cons jb rest)
  from Cons.prems(1) obtain res where pf: "process_frame fs jb (temp w) bl fl ba fa = Inr res"
    by (cases "process_frame fs jb (temp w) bl fl ba fa") auto
  obtain k d where res: "res = (k, d)" by (cases res)
  from pf res Cons.prems(2) have k: "k = fst jb"
    using process_frame_dir[of fs jb es bl fl ba fa k d] by simp
  from pf res Cons.prems(2) obtain im where
    im: "render_frame fs bl fl ba fa (snd jb) = Inr im" and
    d: "d = Directory ((frame_name k, im) # es)"
    using process_frame_dir[of fs jb es bl fl ba fa k d] by auto
  define w1 where "w1 = w\<lparr>temp := d, log := log w @ [ProcessFrame k]\<rparr>"
  define w2 where "w2 = (if cb
       then w1\<lparr>calls := calls w1 @ [py_float (of_nat ((i + 1) * 100) / of_nat n)]\<rparr> else w1)"
  from Cons.prems(1) pf res have nz: "\<not> (cb \<and> n = 0)"
    by (auto simp: Let_def split: if_splits)
  with Cons.prems(1) pf res have run: "pool_loop fs bl fl ba fa cb n (Suc i) rest w2 = (Inr u, w')"
    by (cases cb) (simp_all add: w1_def w2_def Let_def)
  have t2: "temp w2 = Directory ((frame_name k, im) # es)"
    by (simp add: w2_def w1_def d)
  from Cons.prems(3) have dist: "distinct (map fst rest)" and fresh_k: "k \<notin> fst ` set rest"
    by (simp_all add: k)
  from Cons.IH[OF run t2 dist] obtain es' where
    es': "temp w' = Directory es'" and
    len: "length es' = length ((frame_name k, im) # es) + length rest" and
    saved: "\<forall>jb\<in>set rest. \<exists>im. render_frame fs bl fl ba fa (snd jb) = Inr im \<and>
              map_of es' (frame_name (fst jb)) = Some im" and
    other: "\<forall>name. name \<notin> frame_name ` fst ` set rest \<longrightarrow>
              map_of es' name = map_of ((frame_name k, im) # es) name"
    by blast
  have notin: "frame_name k \<notin> frame_name ` fst ` set rest"
    using fresh_k frame_name_inj by blast
  with other have here: "map_of es' (frame_name (fst jb)) = Some im"
    by (simp add: k)
  have others: "\<forall>name. name \<notin> frame_name ` fst ` set (jb # rest) \<longrightarrow>
                  map_of es' name = map_of es name"
    using other by (simp add: k)
  from es' len saved im here others show ?case
    by (intro exI[of _ es']) simp
qed

subsection \<open>What the encoder reads\<close>

lemma read_sequence_all:
  "\<forall>i<m. map_of es (frame_name (k + i)) = Some (g (k + i)) \<Longrightarrow>
   read_sequence es m k = map g [k..<k + m]"
proof (induction m arbitrary: k)
  case 0
  show ?case by simp
next
  case (Suc m)
  from Suc.prems have h0: "map_of es (frame_name k) = Some (g k)"
    by (metis add.right_neutral zero_less_Suc)
  have "\<forall>i<m. map_of es (frame_name (Suc k + i)) = Some (g (Suc k + i))"
    using Suc.prems by (metis Suc_less_eq add_Suc_shift)
  from Suc.IH[OF this] have ih: "read_sequence es m (Suc k) = map g [Suc k..<Suc k + m]" .
  have up: "[k..<k + Suc m] = k # [Suc k..<Suc k + m]"
    by (simp add: upt_conv_Cons)
  show ?case unfolding up using h0 ih by simp
qed

lemma read_sequence_split:
  "\<forall>i<m. map_of es (frame_name (k + i)) = Some (g (k + i)) \<Longrightarrow>
   read_sequence es (m + extra) k = map g [k..<k + m] @ read_sequence es extra (k + m)"
proof (induction m arbitrary: k)
  case 0
  show ?case by simp
next
  case (Suc m)
  from Suc.prems have h0: "map_of es (frame_name k) = Some (g k)"
    by (metis add.right_neutral zero_less_Suc)
  have "\<forall>i<m. map_of es (frame_name (Suc k + i)) = Some (g (Suc k + i))"
    using Suc.prems by (metis Suc_less_eq add_Suc_shift)
  from Suc.IH[OF this] have ih: "read_sequence es (m + extra) (Suc k) =
      map g [Suc k..<Suc k + m] @ read_sequence es extra (Suc k + m)" .
  have up: "[k..<k + Suc m] = k # [Suc k..<Suc k + m]"
    by (simp add: upt_conv_Cons)
  show ?case unfolding up using h0 ih by simp
qed


lemma try_body_Inr:
  assumes "try_body fs sched ffmpeg_ok image_paths ba fa bl fl cb w = (Inr u, w')"
  shows "\<exists>n frame_data w1 u1.
           prepare_frame_data image_paths = Inr (n, frame_data) \<and>
           pool_loop fs bl fl ba fa cb n 0 (sched frame_data) w = (Inr u1, w1) \<and>
           encoded w' = Some (ffmpeg_input (temp w1)) \<and> temp w' = temp w1 \<and>
           calls w' = calls w1"
proof -
  from assms obtain nf where p: "prepare_frame_data image_paths = Inr nf"
    by (cases "prepare_frame_data image_paths") (auto simp: try_body_def)
  obtain n frame_data where nf: "nf = (n, frame_data)" by (cases nf)
  obtain r1 w1 where pl: "pool_loop fs bl fl ba fa cb n 0 (sched frame_data) w = (r1, w1)"
    by (cases "pool_loop fs bl fl ba fa cb n 0 (sched frame_data) w")
  from assms p nf pl obtain u1 where r1: "r1 = Inr u1"
    by (cases r1) (auto simp: try_body_def)
  from assms p nf pl r1 have "run_ffmpeg ffmpeg_ok w1 = (Inr u, w')"
    by (simp add: try_body_def)
  then have "encoded w' = Some (ffmpeg_input (temp w1))" "temp w' = temp w1" "calls w' = calls w1"
    by (auto simp: run_ffmpeg_def Let_def split: if_splits)
  with p nf pl r1 show ?thesis by blast
qed

lemma merge_layers143_Inr:
  assumes "merge_layers143 fs sched ffmpeg_ok remove image_paths ba fa bl fl cb w = (Inr u, w')"
  shows "\<exists>es w0 w1 u1.
           makedirs (temp w) = Inr (Directory es) \<and>
           (temp w = Absent \<longrightarrow> es = []) \<and> (temp w = Directory es \<or> temp w = Absent) \<and>
           w0 = w\<lparr>temp := Directory es, log := log w @ [MakeDirs]\<rparr> \<and>
           try_body fs sched ffmpeg_ok image_paths ba fa bl fl cb w0 = (Inr u1, w1) \<and>
           encoded w' = encoded w1 \<and> calls w' = calls w1"
proof -
  from assms obtain d where mk: "makedirs (temp w) = Inr d"
    by (cases "makedirs (temp w)") (auto simp: merge_layers143_def)
  then obtain es where d: "d = Directory es" and ab: "temp w = Absent \<longrightarrow> es = []"
    and cases: "temp w = Directory es \<or> temp w = Absent"
    by (cases "temp w") (auto simp: makedirs_def)
  define w0 where "w0 = w\<lparr>temp := Directory es, log := log w @ [MakeDirs]\<rparr>"
  obtain r1 w1 where tb: "try_body fs sched ffmpeg_ok image_paths ba fa bl fl cb w0 = (r1, w1)"
    by (cases "try_body fs sched ffmpeg_ok image_paths ba fa bl fl cb w0")
  from assms mk d tb have "r1 = Inr u" and
    w': "w' = w1\<lparr>temp := rmtree remove (temp w1), log := log w1 @ [RmTree]\<rparr>"
    by (simp_all add: merge_layers143_def w0_def)
  with mk d ab cases tb w0_def show ?thesis by auto
qed

lemma sched_jobs:
  assumes "mset (sched js) = mset js" and "distinct (map fst js)"
  shows "distinct (map fst (sched js))" and "set (sched js) = set js"
    and "length (sched js) = length js"
proof -
  from assms(1) have "mset (map fst (sched js)) = mset (map fst js)"
    by (metis mset_map)
  with assms(2) show "distinct (map fst (sched js))"
    by (metis mset_eq_imp_distinct_iff)
  from assms(1) show "set (sched js) = set js" by (rule mset_eq_setD)
  from assms(1) show "length (sched js) = length js" by (rule mset_eq_length)
qed

text \<open>
  C3. Let the pool hand its results over in any order (\<open>sched\<close> permutes the jobs).
  After a successful run the encoder has consumed, at position \<open>i\<close> for every frame index
  \<open>i\<close> of the run, exactly the image that \<^verbatim>\<open>process_frame\<close> renders for frame \<open>i\<close>:
  each frame is filed under the name of its index and the pattern is read in ascending
  index order. When the staging directory was absent or empty at the start, these are all
  the frames consumed.
\<close>

theorem encoder_reads_frames_in_index_order:
  assumes perm: "\<And>js. mset (sched js) = mset js"
    and run: "merge_layers143 fs sched ffmpeg_ok remove image_paths ba fa bl fl cb w = (Inr (), w')"
  shows "\<exists>frames. encoded w' = Some frames \<and>
           length (hd image_paths) \<le> length frames \<and>
           (\<forall>i<length (hd image_paths).
              render_frame fs bl fl ba fa (map (\<lambda>l. l ! i) image_paths) = Inr (frames ! i)) \<and>
           (temp w = Absent \<or> temp w = Directory [] \<longrightarrow>
              length frames = length (hd image_paths))"
proof -
  define n where "n = length (hd image_paths)"
  define jobs where "jobs = map (\<lambda>i. (i, map (\<lambda>l. l ! i) image_paths)) [0..<n]"
  from merge_layers143_Inr[OF run] obtain es w0 w1 u1 where
    es: "temp w = Absent \<longrightarrow> es = []" "temp w = Directory es \<or> temp w = Absent" and
    w0: "w0 = w\<lparr>temp := Directory es, log := log w @ [MakeDirs]\<rparr>" and
    tb: "try_body fs sched ffmpeg_ok image_paths ba fa bl fl cb w0 = (Inr u1, w1)" and
    enc: "encoded w' = encoded w1"
    by blast
  from try_body_Inr[OF tb] obtain n' frame_data w2 u2 where
    pfd: "prepare_frame_data image_paths = Inr (n', frame_data)" and
    pl: "pool_loop fs bl fl ba fa cb n' 0 (sched frame_data) w0 = (Inr u2, w2)" and
    enc1: "encoded w1 = Some (ffmpeg_input (temp w2))"
    by blast
  from pfd have fd: "frame_data = jobs" and "n' = n"
    by (auto simp: prepare_frame_data_eq n_def jobs_def split: if_splits)
  have dist: "distinct (map fst jobs)"
    by (simp add: jobs_def comp_def)
  note sj = sched_jobs[of sched jobs, OF perm dist]
  have t0: "temp w0 = Directory es" by (simp add: w0)
  from pool_loop_saves[OF pl[unfolded fd] t0 sj(1)] obtain es' where
    es': "temp w2 = Directory es'" and
    len: "length es' = length es + length (sched jobs)" and
    saved: "\<forall>jb\<in>set (sched jobs). \<exists>im. render_frame fs bl fl ba fa (snd jb) = Inr im \<and>
              map_of es' (frame_name (fst jb)) = Some im"
    by blast
  have len': "length es' = n + length es"
    using len sj(3) by (simp add: jobs_def)
  define g where "g i = (case render_frame fs bl fl ba fa (map (\<lambda>l. l ! i) image_paths) of
                            Inr im \<Rightarrow> im)" for i
  have each: "render_frame fs bl fl ba fa (map (\<lambda>l. l ! i) image_paths) = Inr (g i) \<and>
              map_of es' (frame_name i) = Some (g i)" if "i < n" for i
  proof -
    from that have "(i, map (\<lambda>l. l ! i) image_paths) \<in> set (sched jobs)"
      unfolding sj(2) by (auto simp: jobs_def)
    with saved obtain im where
      "render_frame fs bl fl ba fa (map (\<lambda>l. l ! i) image_paths) = Inr im"
      "map_of es' (frame_name i) = Some im"
      by fastforce
    then show ?thesis by (simp add: g_def)
  qed
  then have present: "\<forall>i<n. map_of es' (frame_name (0 + i)) = Some (g (0 + i))"
    by simp
  define frames where "frames = ffmpeg_input (temp w2)"
  from read_sequence_split[OF present, of "length es"]
  have fr: "frames = map g [0..<n] @ read_sequence es' (length es) n"
    by (simp add: frames_def es' ffmpeg_input_def len')
  have "encoded w' = Some frames" by (simp add: enc enc1 frames_def)
  moreover have "n \<le> length frames" by (simp add: fr)
  moreover have "\<forall>i<n. render_frame fs bl fl ba fa (map (\<lambda>l. l ! i) image_paths) =
                  Inr (frames ! i)"
    using each by (simp add: fr nth_append)
  moreover have "temp w = Absent \<or> temp w = Directory [] \<longrightarrow> length frames = n"
  proof
    assume "temp w = Absent \<or> temp w = Directory []"
    with es have "es = []" by auto
    then show "length frames = n" by (simp add: fr)
  qed
  ultimately show ?thesis unfolding n_def by blast
qed


text \<open>Two frames finished in reverse order: frame 1 is staged first, frame 0 is encoded first.\<close>

theorem encoder_reads_frames_in_index_order_witness:
  "fst (merge_layers143 (map_of [(''a0'', (2, 2)), (''a1'', (2, 2)), (''b0'', (2, 2)), (''b1'', (2, 2))])
          rev ffmpeg_accepts removal_succeeds [[''a0'', ''a1''], [''b0'', ''b1'']] 0 0 [] [] True fresh) = Inr () \<and>
   log (snd (merge_layers143
          (map_of [(''a0'', (2, 2)), (''a1'', (2, 2)), (''b0'', (2, 2)), (''b1'', (2, 2))])
          rev ffmpeg_accepts removal_succeeds [[''a0'', ''a1''], [''b0'', ''b1'']] 0 0 [] [] True fresh)) =
     [MakeDirs, ProcessFrame 1, ProcessFrame 0, Ffmpeg, RmTree] \<and>
   (\<exists>frames.
      encoded (snd (merge_layers143
          (map_of [(''a0'', (2, 2)), (''a1'', (2, 2)), (''b0'', (2, 2)), (''b1'', (2, 2))])
          rev ffmpeg_accepts removal_succeeds [[''a0'', ''a1''], [''b0'', ''b1'']] 0 0 [] [] True fresh)) =
        Some frames \<and>
      length frames = 2 \<and>
      render_frame (map_of [(''a0'', (2, 2)), (''a1'', (2, 2)), (''b0'', (2, 2)), (''b1'', (2, 2))])
          [] [] 0 0 [''a0'', ''b0''] = Inr (frames ! 0) \<and>
      render_frame (map_of [(''a0'', (2, 2)), (''a1'', (2, 2)), (''b0'', (2, 2)), (''b1'', (2, 2))])
          [] [] 0 0 [''a1'', ''b1''] = Inr (frames ! 1))"
proof -
  let ?fs = "map_of [(''a0'', (2::nat, 2::nat)), (''a1'', (2, 2)), (''b0'', (2, 2)), (''b1'', (2, 2))]"
  let ?ls = "[[''a0'', ''a1''], [''b0'', ''b1'']]"
  let ?run = "merge_layers143 ?fs rev ffmpeg_accepts removal_succeeds ?ls 0 0 [] [] True fresh"
  have perm: "\<And>js::job list. mset (rev js) = mset js" by simp
  have ok: "fst ?run = Inr ()" by code_simp
  have lg: "log (snd ?run) = [MakeDirs, ProcessFrame 1, ProcessFrame 0, Ffmpeg, RmTree]"
    by code_simp
  from ok have run: "?run = (Inr (), snd ?run)" by (simp add: prod_eq_iff)
  have fr: "temp fresh = Absent" by (simp add: fresh_def)
  from encoder_reads_frames_in_index_order[OF perm run] fr obtain frames where
    e: "encoded (snd ?run) = Some frames" and
    l: "length frames = length (hd ?ls)" and
    a: "\<forall>i<length (hd ?ls). render_frame ?fs [] [] 0 0 (map (\<lambda>l. l ! i) ?ls) = Inr (frames ! i)"
    by blast
  have "render_frame ?fs [] [] 0 0 (map (\<lambda>l. l ! 0) ?ls) = Inr (frames ! 0)"
    and "render_frame ?fs [] [] 0 0 (map (\<lambda>l. l ! 1) ?ls) = Inr (frames ! 1)"
    using a[rule_format, of 0] a[rule_format, of 1] by simp_all
  then have "render_frame ?fs [] [] 0 0 [''a0'', ''b0''] = Inr (frames ! 0)"
    and "render_frame ?fs [] [] 0 0 [''a1'', ''b1''] = Inr (frames ! 1)"
    by simp_all
  with ok lg e l show ?thesis by auto
qed

text \<open>
  The walk of \<open>ffmpeg_input\<close> ends at a missing name, never because its bound ran out:
  the name after the last frame read is not in the directory.
\<close>

lemma read_sequence_length: "length (read_sequence es fuel k) \<le> fuel"
  by (induction fuel arbitrary: k) (auto split: option.splits)

lemma read_sequence_present:
  "i < length (read_sequence es fuel k) \<Longrightarrow> frame_name (k + i) \<in> dom (map_of es)"
proof (induction fuel arbitrary: k i)
  case 0
  then show ?case by simp
next
  case (Suc fuel)
  then obtain im where im: "map_of es (frame_name k) = Some im"
    by (cases "map_of es (frame_name k)") auto
  show ?case
  proof (cases i)
    case 0
    with im show ?thesis by auto
  next
    case (Suc j)
    with Suc.prems im have "j < length (read_sequence es fuel (Suc k))" by simp
    from Suc.IH[OF this] Suc show ?thesis by simp
  qed
qed

lemma read_sequence_stops:
  "length (read_sequence es fuel k) < fuel \<Longrightarrow>
   map_of es (frame_name (k + length (read_sequence es fuel k))) = None"
proof (induction fuel arbitrary: k)
  case 0
  then show ?case by simp
next
  case (Suc fuel)
  show ?case
  proof (cases "map_of es (frame_name k)")
    case None
    then show ?thesis by simp
  next
    case (Some im)
    with Suc.prems have "length (read_sequence es fuel (Suc k)) < fuel" by simp
    from Suc.IH[OF this] Some show ?thesis by simp
  qed
qed

lemma ffmpeg_input_stops_at_gap:
  "map_of es (frame_name (length (read_sequence es (length es) 0))) = None"
proof (cases "length (read_sequence es (length es) 0) < length es")
  case True
  from read_sequence_stops[OF True] show ?thesis by simp
next
  case False
  define m where "m = length es"
  from False read_sequence_length[of es "length es" 0]
  have full: "length (read_sequence es (length es) 0) = m" by (simp add: m_def)
  have sub: "frame_name ` {0..<m} \<subseteq> fst ` set es"
  proof
    fix x assume "x \<in> frame_name ` {0..<m}"
    then obtain i where i: "i < m" "x = frame_name i" by auto
    with full read_sequence_present[of i es "length es" 0]
    have "x \<in> dom (map_of es)" by simp
    then show "x \<in> fst ` set es" by (simp add: dom_map_of_conv_image_fst)
  qed
  have inj: "inj_on frame_name {0..<m}"
    by (rule inj_onI) (rule frame_name_inj)
  have "card (fst ` set es) \<le> length es"
    by (metis card_image_le card_length le_trans List.finite_set)
  also have "\<dots> = card (frame_name ` {0..<m})"
    using card_image[OF inj] by (simp add: m_def)
  finally have "frame_name ` {0..<m} = fst ` set es"
    using sub by (intro card_seteq) simp_all
  moreover have "frame_name m \<notin> frame_name ` {0..<m}"
    using frame_name_inj by fastforce
  ultimately have "frame_name m \<notin> fst ` set es" by simp
  then show ?thesis by (simp add: full map_of_eq_None_iff)
qed

section \<open>Empty inputs\<close>

text \<open>An empty layer stops the padding loop of mar141 as soon as the frame count is positive.\<close>

lemma pad_loop_zero: "pad_loop 0 layers js h = (Inr (), h)"
  by (induction js) simp_all

lemma pad_loop_empty_layer:
  "\<exists>i\<in>set js. h (layers ! i) = [] \<Longrightarrow> 0 < n \<Longrightarrow>
   fst (pad_loop n layers js h) = Inl IndexError"
proof (induction js arbitrary: h)
  case Nil
  then show ?case by simp
next
  case (Cons i rest)
  show ?case
  proof (cases "h (layers ! i) = []")
    case True
    with Cons.prems(2) show ?thesis by (simp add: py_last_def)
  next
    case False
    with Cons.prems(1) obtain j where j: "j \<in> set rest" "h (layers ! j) = []" by auto
    with False have ne: "layers ! j \<noteq> layers ! i" by auto
    show ?thesis
    proof (cases "length (h (layers ! i)) < n")
      case True
      let ?h1 = "h(layers ! i := h (layers ! i) @
                   replicate (n - length (h (layers ! i))) (last (h (layers ! i))))"
      from j ne have "\<exists>i\<in>set rest. ?h1 (layers ! i) = []" by auto
      then have ih: "fst (pad_loop n layers rest ?h1) = Inl IndexError"
        using Cons.prems(2) by (rule Cons.IH)
      have step: "pad_loop n layers (i # rest) h = pad_loop n layers rest ?h1"
        using True False by (simp add: py_last_def Let_def)
      show ?thesis unfolding step by (rule ih)
    next
      case notless: False
      from j have "\<exists>i\<in>set rest. h (layers ! i) = []" by auto
      from Cons.IH[OF this Cons.prems(2)] notless show ?thesis
        by (simp add: Let_def)
    qed
  qed
qed

lemma normalize_layers_empty_layer:
  assumes "layers \<noteq> []" and "\<exists>r\<in>set layers. h r = []"
  shows "fst (normalize_layers layers h) = Inl IndexError \<or>
         (\<exists>h'. normalize_layers layers h = (Inr 0, h') \<and> (\<forall>r\<in>set layers. h' r = []))"
proof -
  define n where "n = Max ((\<lambda>r. length (h r)) ` set layers)"
  have m: "py_max (map (\<lambda>r. length (h r)) layers) = Inr n"
    using assms(1) by (simp add: py_max_Max n_def)
  show ?thesis
  proof (cases "n = 0")
    case True
    have "length (h r) \<le> n" if "r \<in> set layers" for r
      unfolding n_def using that by simp
    with True have "\<forall>r\<in>set layers. h r = []" by auto
    with m True show ?thesis
      by (simp add: normalize_layers_def pad_loop_zero)
  next
    case False
    from assms(2) obtain i where "i < length layers" "h (layers ! i) = []"
      by (auto simp: in_set_conv_nth)
    then have "i \<in> set [0..<length layers] \<and> h (layers ! i) = []" by simp
    then have "\<exists>i\<in>set [0..<length layers]. h (layers ! i) = []" by blast
    from pad_loop_empty_layer[OF this, of n] False
    have "fst (pad_loop n layers [0..<length layers] h) = Inl IndexError" by simp
    with m have "fst (normalize_layers layers h) = Inl IndexError"
      by (cases "pad_loop n layers [0..<length layers] h")
         (auto simp: normalize_layers_def split: sum.splits)
    then show ?thesis ..
  qed
qed

lemma merge_layers141_empty_layer:
  assumes "layers \<noteq> []" and "\<exists>r\<in>set layers. store w r = []"
  shows "fst (merge_layers141 fs layers ba fa bl fl cb w) = Inl IndexError \<and>
         video (snd (merge_layers141 fs layers ba fa bl fl cb w)) = video w \<and>
         progress (snd (merge_layers141 fs layers ba fa bl fl cb w)) = progress w"
proof -
  from normalize_layers_empty_layer[OF assms]
  consider (raise) "fst (normalize_layers layers (store w)) = Inl IndexError"
    | (zero) h' where "normalize_layers layers (store w) = (Inr 0, h')"
        "\<forall>r\<in>set layers. h' r = []"
    by blast
  then show ?thesis
  proof cases
    case raise
    then obtain h' where "normalize_layers layers (store w) = (Inl IndexError, h')"
      by (cases "normalize_layers layers (store w)") auto
    then show ?thesis by (simp add: merge_layers141_def)
  next
    case zero
    from assms(1) zero(2) have "first_image fs (view layers h') = Inl IndexError"
      by (cases layers) (simp_all add: first_image_def view_def py_nth_def)
    with zero(1) show ?thesis by (simp add: merge_layers141_def)
  qed
qed

lemma merge_layers143_prepare_fails:
  assumes "prepare_frame_data image_paths = Inl e" and "temp w \<noteq> RegularFile"
  shows "fst (merge_layers143 fs sched ffmpeg_ok remove image_paths ba fa bl fl cb w) = Inl e \<and>
         calls (snd (merge_layers143 fs sched ffmpeg_ok remove image_paths ba fa bl fl cb w)) = calls w \<and>
         encoded (snd (merge_layers143 fs sched ffmpeg_ok remove image_paths ba fa bl fl cb w)) =
           encoded w \<and>
         log (snd (merge_layers143 fs sched ffmpeg_ok remove image_paths ba fa bl fl cb w)) =
           log w @ [MakeDirs, RmTree]"
proof -
  from assms(2) obtain d where mk: "makedirs (temp w) = Inr d"
    by (cases "temp w") (auto simp: makedirs_def)
  with assms(1) show ?thesis
    by (simp add: merge_layers143_def try_body_def)
qed

text \<open>
  C4 as stated (an empty layer makes \<^verbatim>\<open>merge_layers\<close> fail with a validation error
  before any processing) fails for mar143 when the first layer is the empty one: no frame
  is prepared, nothing is raised, and the encoder is run. In a fresh world the encoder
  finds no frame and the run ends with \<^verbatim>\<open>CalledProcessError\<close>; where an earlier frame
  is still staged, the run succeeds.
\<close>

theorem merge_layers143_empty_first_layer_not_rejected:
  "merge_layers143 (map_of []) id ffmpeg_accepts removal_succeeds [[], [''b.png'']] 0 0 [] [] True fresh =
     (Inl CalledProcessError,
      \<lparr>temp = Absent, calls = [], encoded = None, log = [MakeDirs, Ffmpeg, RmTree]\<rparr>) \<and>
   fst (merge_layers143 (map_of []) id ffmpeg_accepts removal_succeeds [[], [''b.png'']] 0 0 [] [] True stale) =
     Inr ()"
  by code_simp

text \<open>
  C4, amended. The code has no validation step and no \<^verbatim>\<open>ValidationError\<close>; the
  built-in exceptions do the work. mar141: an empty list of layers raises
  \<^verbatim>\<open>ValueError\<close> (from \<^verbatim>\<open>max\<close>) and changes nothing; a non-empty list with an empty
  layer raises \<^verbatim>\<open>IndexError\<close> with no frame written and no progress reported.
  mar143: an empty list of layers, and a list whose first layer is not empty while an
  empty layer is present, raise \<^verbatim>\<open>IndexError\<close> with no frame processed (the log holds
  only the creation and the removal of the staging directory), no progress reported and
  nothing encoded.
\<close>

theorem empty_input_raises:
  "fst (merge_layers141 fs [] ba fa bl141 fl141 cb w141) = Inl ValueError \<and>
   snd (merge_layers141 fs [] ba fa bl141 fl141 cb w141) = w141 \<and>
   (layers \<noteq> [] \<and> (\<exists>r\<in>set layers. store w141 r = []) \<longrightarrow>
      fst (merge_layers141 fs layers ba fa bl141 fl141 cb w141) = Inl IndexError \<and>
      video (snd (merge_layers141 fs layers ba fa bl141 fl141 cb w141)) = video w141 \<and>
      progress (snd (merge_layers141 fs layers ba fa bl141 fl141 cb w141)) = progress w141) \<and>
   (temp w \<noteq> RegularFile \<longrightarrow>
      fst (merge_layers143 fs sched ffmpeg_ok remove [] ba fa bl fl cb w) = Inl IndexError \<and>
      calls (snd (merge_layers143 fs sched ffmpeg_ok remove [] ba fa bl fl cb w)) = calls w \<and>
      encoded (snd (merge_layers143 fs sched ffmpeg_ok remove [] ba fa bl fl cb w)) = encoded w \<and>
      log (snd (merge_layers143 fs sched ffmpeg_ok remove [] ba fa bl fl cb w)) =
        log w @ [MakeDirs, RmTree]) \<and>
   (temp w \<noteq> RegularFile \<and> image_paths \<noteq> [] \<and> hd image_paths \<noteq> [] \<and>
    [] \<in> set image_paths \<longrightarrow>
      fst (merge_layers143 fs sched ffmpeg_ok remove image_paths ba fa bl fl cb w) = Inl IndexError \<and>
      calls (snd (merge_layers143 fs sched ffmpeg_ok remove image_paths ba fa bl fl cb w)) = calls w \<and>
      encoded (snd (merge_layers143 fs sched ffmpeg_ok remove image_paths ba fa bl fl cb w)) =
        encoded w \<and>
      log (snd (merge_layers143 fs sched ffmpeg_ok remove image_paths ba fa bl fl cb w)) =
        log w @ [MakeDirs, RmTree])"
proof -
  have a: "fst (merge_layers141 fs [] ba fa bl141 fl141 cb w141) = Inl ValueError"
    and b: "snd (merge_layers141 fs [] ba fa bl141 fl141 cb w141) = w141"
    by (simp_all add: merge_layers141_def normalize_layers_def py_max_def)
  have e0: "prepare_frame_data [] = Inl IndexError"
    by (simp add: prepare_frame_data_eq)
  have e1: "prepare_frame_data image_paths = Inl IndexError"
    if "image_paths \<noteq> []" "hd image_paths \<noteq> []" "[] \<in> set image_paths"
  proof -
    from that(2,3) have "\<not> (\<forall>l\<in>set image_paths. length (hd image_paths) \<le> length l)"
      by force
    with that(1) show ?thesis by (simp add: prepare_frame_data_eq)
  qed
  from a b merge_layers141_empty_layer[of layers w141 fs ba fa bl141 fl141 cb]
    merge_layers143_prepare_fails[OF e0, of w fs sched ffmpeg_ok remove ba fa bl fl cb]
    merge_layers143_prepare_fails[OF e1, of w fs sched ffmpeg_ok remove ba fa bl fl cb]
  show ?thesis by blast
qed


theorem empty_input_raises_witness:
  "fst (merge_layers141 (map_of []) [] 0 0 None None True
          \<lparr>store = alloc [[''a.png''], []], video = [], progress = []\<rparr>) = Inl ValueError \<and>
   fst (merge_layers141 (map_of []) [0, 1] 0 0 None None True
          \<lparr>store = alloc [[''a.png''], []], video = [], progress = []\<rparr>) = Inl IndexError \<and>
   progress (snd (merge_layers141 (map_of []) [0, 1] 0 0 None None True
          \<lparr>store = alloc [[''a.png''], []], video = [], progress = []\<rparr>)) = [] \<and>
   fst (merge_layers143 (map_of []) id ffmpeg_accepts removal_succeeds [] 0 0 [] [] True fresh) = Inl IndexError \<and>
   fst (merge_layers143 (map_of []) id ffmpeg_accepts removal_succeeds [[''a.png''], []] 0 0 [] [] True fresh) =
     Inl IndexError \<and>
   log (snd (merge_layers143 (map_of []) id ffmpeg_accepts removal_succeeds [[''a.png''], []] 0 0 [] [] True fresh)) =
     [MakeDirs, RmTree]"
proof -
  let ?w = "\<lparr>store = alloc [[''a.png''], []], video = [], progress = []\<rparr>"
  have h1: "[0, 1] \<noteq> ([]::ref list) \<and> (\<exists>r\<in>set [0, 1]. store ?w r = [])"
    by (simp add: alloc_def)
  have h2: "temp fresh \<noteq> RegularFile" by (simp add: fresh_def)
  have h3: "temp fresh \<noteq> RegularFile \<and> [[''a.png''], []] \<noteq> [] \<and>
            hd [[''a.png''], []] \<noteq> [] \<and> [] \<in> set [[''a.png''], []]"
    by (simp add: fresh_def)
  note inst = empty_input_raises[where fs = "map_of []" and ba = 0 and fa = 0 and ?bl141.0 = None
      and ?fl141.0 = None and cb = True and ?w141.0 = ?w and layers = "[0, 1]"
      and w = fresh and sched = id and ffmpeg_ok = ffmpeg_accepts and remove = removal_succeeds and bl = "[]" and fl = "[]"
      and image_paths = "[[''a.png''], []]"]
  from inst have a: "fst (merge_layers141 (map_of []) [] 0 0 None None True ?w) = Inl ValueError"
    by blast
  from inst h1 have b: "fst (merge_layers141 (map_of []) [0, 1] 0 0 None None True ?w) =
      Inl IndexError"
    and c: "progress (snd (merge_layers141 (map_of []) [0, 1] 0 0 None None True ?w)) =
      progress ?w"
    by blast+
  from inst h2 have d: "fst (merge_layers143 (map_of []) id ffmpeg_accepts removal_succeeds [] 0 0 [] [] True fresh) =
      Inl IndexError"
    by blast
  from inst h3 have e: "fst (merge_layers143 (map_of []) id ffmpeg_accepts removal_succeeds [[''a.png''], []]
      0 0 [] [] True fresh) = Inl IndexError"
    and f: "log (snd (merge_layers143 (map_of []) id ffmpeg_accepts removal_succeeds [[''a.png''], []]
      0 0 [] [] True fresh)) = log fresh @ [MakeDirs, RmTree]"
    by blast+
  from c have c': "progress (snd (merge_layers141 (map_of []) [0, 1] 0 0 None None True ?w)) = []"
    by simp
  from f have f': "log (snd (merge_layers143 (map_of []) id ffmpeg_accepts removal_succeeds [[''a.png''], []]
      0 0 [] [] True fresh)) = [MakeDirs, RmTree]"
    by (simp add: fresh_def)
  from a b c' d e f' show ?thesis by blast
qed

section \<open>Progress reporting\<close>

text \<open>
  A sequence of \<open>n > 0\<close> rounded percentages that grows with the frame count, starts at
  or above 0 and ends at 100.
\<close>

lemma percent_props:
  fixes f :: "nat \<Rightarrow> rat"
  assumes n: "0 < n"
    and mono: "\<And>i j. i \<le> j \<Longrightarrow> f i \<le> f j"
    and lo: "\<And>i. 0 \<le> f i"
    and top: "f (n - 1) = 100"
    and below: "\<And>i. n \<le> 2 ^ 52 \<Longrightarrow> Suc i < n \<Longrightarrow> f i < 100"
  shows "map f [0..<n] \<noteq> [] \<and> sorted (map f [0..<n]) \<and>
         (\<forall>v\<in>set (map f [0..<n]). 0 \<le> v \<and> v \<le> 100) \<and>
         last (map f [0..<n]) = 100 \<and>
         (n \<le> 2 ^ 52 \<longrightarrow> 100 \<notin> set (butlast (map f [0..<n])))"
proof -
  have ne: "map f [0..<n] \<noteq> []" using n by simp
  have "sorted_wrt (\<lambda>i j. f i \<le> f j) [0..<n]"
  proof (rule sorted_wrt_mono_rel[of _ "(<)"])
    fix x y :: nat
    assume "x < y"
    then have "x \<le> y" by simp
    then show "f x \<le> f y" by (rule mono)
  next
    show "sorted_wrt (<) [0..<n]" by (rule sorted_wrt_upt)
  qed
  then have srt: "sorted (map f [0..<n])"
    unfolding sorted_map .
  have "0 \<le> f i \<and> f i \<le> 100" if "i < n" for i
  proof -
    from that have "i \<le> n - 1" by simp
    from mono[OF this] top lo[of i] show ?thesis by simp
  qed
  then have bnd: "\<forall>v\<in>set (map f [0..<n]). 0 \<le> v \<and> v \<le> 100"
    by auto
  obtain m where m: "n = Suc m" using n by (cases n) auto
  have lst: "last (map f [0..<n]) = 100"
    using top by (simp add: m)
  have once: "n \<le> 2 ^ 52 \<longrightarrow> 100 \<notin> set (butlast (map f [0..<n]))"
  proof
    assume small: "n \<le> 2 ^ 52"
    have "f i \<noteq> 100" if "i < m" for i
      using below[OF small, of i] that m by simp
    then show "100 \<notin> set (butlast (map f [0..<n]))"
      by (auto simp: m map_butlast[symmetric])
  qed
  from ne srt bnd lst once show ?thesis by blast
qed

text \<open>mar143: \<^verbatim>\<open>(i + 1) * 100 / num_frames\<close>.\<close>

lemma percent143_props:
  assumes n: "0 < n"
  defines "f \<equiv> \<lambda>i. py_float (rat_of_nat ((i + 1) * 100) / rat_of_nat n)"
  shows "map f [0..<n] \<noteq> [] \<and> sorted (map f [0..<n]) \<and>
         (\<forall>v\<in>set (map f [0..<n]). 0 \<le> v \<and> v \<le> 100) \<and>
         last (map f [0..<n]) = 100 \<and>
         (n \<le> 2 ^ 52 \<longrightarrow> 100 \<notin> set (butlast (map f [0..<n])))"
proof (rule percent_props[OF n])
  have npos: "0 < rat_of_nat n" using n by simp
  define g where "g i = rat_of_nat ((i + 1) * 100) / rat_of_nat n" for i
  have f: "f i = py_float (g i)" for i by (simp add: f_def g_def)
  have g0: "0 \<le> g i" for i by (simp add: g_def)
  have gm: "g i \<le> g j" if "i \<le> j" for i j
  proof -
    from that have "(i + 1) * 100 \<le> (j + 1) * 100" by simp
    then have "rat_of_nat ((i + 1) * 100) \<le> rat_of_nat ((j + 1) * 100)"
      by (simp only: of_nat_le_iff)
    then show ?thesis unfolding g_def using npos by (simp only: divide_right_mono less_imp_le)
  qed
  show "f i \<le> f j" if "i \<le> j" for i j
    unfolding f by (rule py_float_mono[OF g0 gm[OF that]])
  show "0 \<le> f i" for i
    unfolding f by (rule py_float_nonneg[OF g0])
  have "g (n - 1) = 100"
  proof -
    from n have "(n - 1 + 1) * 100 = n * 100" by simp
    then have "g (n - 1) = rat_of_nat (n * 100) / rat_of_nat n" by (simp only: g_def)
    also have "\<dots> = 100" using npos by simp
    finally show ?thesis .
  qed
  then show "f (n - 1) = 100" unfolding f by (simp add: py_float_consts)
  show "f i < 100" if small: "n \<le> 2 ^ 52" and i: "Suc i < n" for i
  proof -
    from small have "rat_of_nat n \<le> rat_of_nat (2 ^ 52)" by (simp only: of_nat_le_iff)
    then have nb: "rat_of_nat n \<le> 2 ^ 52" by simp
    from i have "(i + 1) * 100 + 100 \<le> n * 100" by simp
    then have "rat_of_nat ((i + 1) * 100 + 100) \<le> rat_of_nat (n * 100)"
      by (simp only: of_nat_le_iff)
    then have a: "rat_of_nat ((i + 1) * 100) \<le> 100 * rat_of_nat n - 100" by simp
    have "rat_of_nat n / 2 ^ 46 \<le> 100" using nb by simp
    then have "100 * rat_of_nat n - 100 \<le> (100 - 1 / 2 ^ 46) * rat_of_nat n"
      by (simp add: algebra_simps)
    with a have "rat_of_nat ((i + 1) * 100) \<le> (100 - 1 / 2 ^ 46) * rat_of_nat n" by simp
    then have "g i \<le> 100 - 1 / 2 ^ 46"
      unfolding g_def using npos by (simp only: pos_divide_le_eq)
    from py_float_mono[OF g0 this] have "f i \<le> 100 - 1 / 2 ^ 46"
      by (simp only: f py_float_consts)
    then show ?thesis by simp
  qed
qed

text \<open>mar141: \<^verbatim>\<open>(i + 1) / total_frames * 100\<close>.\<close>

lemma percent141_props:
  assumes n: "0 < n"
  defines "f \<equiv> \<lambda>i. py_float (py_float (rat_of_nat (i + 1) / rat_of_nat n) * 100)"
  shows "map f [0..<n] \<noteq> [] \<and> sorted (map f [0..<n]) \<and>
         (\<forall>v\<in>set (map f [0..<n]). 0 \<le> v \<and> v \<le> 100) \<and>
         last (map f [0..<n]) = 100 \<and>
         (n \<le> 2 ^ 52 \<longrightarrow> 100 \<notin> set (butlast (map f [0..<n])))"
proof (rule percent_props[OF n])
  have npos: "0 < rat_of_nat n" using n by simp
  define g where "g i = rat_of_nat (i + 1) / rat_of_nat n" for i
  define q where "q i = py_float (g i)" for i
  have f: "f i = py_float (q i * 100)" for i by (simp add: f_def g_def q_def)
  have g0: "0 \<le> g i" for i by (simp add: g_def)
  have gm: "g i \<le> g j" if "i \<le> j" for i j
  proof -
    from that have "rat_of_nat (i + 1) \<le> rat_of_nat (j + 1)" by simp
    then show ?thesis unfolding g_def using npos by (simp only: divide_right_mono less_imp_le)
  qed
  have q0: "0 \<le> q i * 100" for i
    using py_float_nonneg[OF g0, of i] by (simp add: q_def)
  have qm: "q i * 100 \<le> q j * 100" if "i \<le> j" for i j
    using py_float_mono[OF g0 gm[OF that]] by (simp add: q_def)
  show "f i \<le> f j" if "i \<le> j" for i j
    unfolding f by (rule py_float_mono[OF q0 qm[OF that]])
  show "0 \<le> f i" for i
    unfolding f by (rule py_float_nonneg[OF q0])
  have "g (n - 1) = 1" using n npos by (simp add: g_def)
  then have "q (n - 1) * 100 = 100" by (simp add: q_def py_float_consts)
  then show "f (n - 1) = 100" unfolding f by (simp add: py_float_consts)
  show "f i < 100" if small: "n \<le> 2 ^ 52" and i: "Suc i < n" for i
  proof -
    from small have "rat_of_nat n \<le> rat_of_nat (2 ^ 52)" by (simp only: of_nat_le_iff)
    then have nb: "rat_of_nat n \<le> 2 ^ 53" by simp
    from i have "i + 1 + 1 \<le> n" by simp
    then have "rat_of_nat (i + 1 + 1) \<le> rat_of_nat n" by (simp only: of_nat_le_iff)
    then have a: "rat_of_nat (i + 1) \<le> rat_of_nat n - 1" by simp
    have "rat_of_nat n / 2 ^ 53 \<le> 1" using nb by simp
    then have "rat_of_nat n - 1 \<le> (1 - 1 / 2 ^ 53) * rat_of_nat n"
      by (simp add: algebra_simps)
    with a have "rat_of_nat (i + 1) \<le> (1 - 1 / 2 ^ 53) * rat_of_nat n" by simp
    then have "g i \<le> 1 - 1 / 2 ^ 53"
      unfolding g_def using npos by (simp only: pos_divide_le_eq)
    from py_float_mono[OF g0 this] have "q i \<le> 1 - 1 / 2 ^ 53"
      by (simp only: q_def py_float_consts)
    then have "q i * 100 \<le> (1 - 1 / 2 ^ 53) * 100" by simp
    from py_float_mono[OF q0 this] have "f i \<le> 100 - 1 / 2 ^ 46"
      by (simp only: f py_float_consts)
    then show ?thesis by simp
  qed
qed

lemma frame_loop141_progress:
  "frame_loop141 fs bl fl ba fa True layers n js w = (Inr u, w') \<Longrightarrow>
   progress w' = progress w @
     map (\<lambda>i. py_float (py_float (rat_of_nat (i + 1) / rat_of_nat n) * 100)) js"
proof (induction js arbitrary: w)
  case Nil
  then show ?case by simp
next
  case (Cons i rest)
  from Cons.prems obtain im where im: "merge_frame141 fs bl fl ba fa layers i = Inr im"
    by (cases "merge_frame141 fs bl fl ba fa layers i") auto
  define w2 where "w2 = w\<lparr>video := video w @ [im],
      progress := progress w @ [py_float (py_float (rat_of_nat (i + 1) / rat_of_nat n) * 100)]\<rparr>"
  from Cons.prems im have "frame_loop141 fs bl fl ba fa True layers n rest w2 = (Inr u, w')"
    by (simp add: w2_def Let_def)
  from Cons.IH[OF this] show ?case
    by (simp add: w2_def)
qed

lemma pool_loop_calls:
  "pool_loop fs bl fl ba fa True n i js w = (Inr u, w') \<Longrightarrow>
   calls w' = calls w @
     map (\<lambda>j. py_float (rat_of_nat ((j + 1) * 100) / rat_of_nat n)) [i..<i + length js]"
proof (induction js arbitrary: i w)
  case Nil
  then show ?case by simp
next
  case (Cons jb rest)
  from Cons.prems obtain res where pf: "process_frame fs jb (temp w) bl fl ba fa = Inr res"
    by (cases "process_frame fs jb (temp w) bl fl ba fa") auto
  obtain k d where res: "res = (k, d)" by (cases res)
  define w2 where "w2 = w\<lparr>temp := d, log := log w @ [ProcessFrame k],
      calls := calls w @ [py_float (rat_of_nat ((i + 1) * 100) / rat_of_nat n)]\<rparr>"
  from Cons.prems pf res have nz: "n \<noteq> 0"
    by (auto simp: Let_def split: if_splits)
  with Cons.prems pf res have "pool_loop fs bl fl ba fa True n (Suc i) rest w2 = (Inr u, w')"
    by (simp add: w2_def Let_def)
  from Cons.IH[OF this]
  have ih: "calls w' = calls w2 @
      map (\<lambda>j. py_float (rat_of_nat ((j + 1) * 100) / rat_of_nat n))
        [Suc i..<Suc i + length rest]" .
  have len: "length (jb # rest) = Suc (length rest)" by simp
  have up: "[i..<i + Suc m] = i # [Suc i..<Suc i + m]" for m
    by (simp add: upt_conv_Cons)
  show ?case unfolding len up using ih
    by (simp add: w2_def)
qed

lemma normalize_layers_length:
  assumes "normalize_layers layers h = (Inr n, h')" and "r \<in> set layers"
  shows "length (h' r) = n"
proof -
  from normalize_layers_Inr[OF assms(1)]
  have n: "n = Max ((\<lambda>r. length (h r)) ` set layers)"
    and h': "h' = (\<lambda>r. if r \<in> set layers then padded n (h r) else h r)"
    by simp_all
  have "length (h r) \<le> n" unfolding n using assms(2) by simp
  then show ?thesis using assms(2) by (auto simp: h' padded_def)
qed

lemma merge_layers141_Inr:
  assumes "merge_layers141 fs layers ba fa bl fl cb w = (Inr u, w')"
  shows "\<exists>n h'. normalize_layers layers (store w) = (Inr n, h') \<and> 0 < n \<and>
           frame_loop141 fs bl fl ba fa cb (view layers h') n [0..<n] (w\<lparr>store := h'\<rparr>) =
             (Inr u, w')"
proof -
  obtain r h' where nl: "normalize_layers layers (store w) = (r, h')"
    by (cases "normalize_layers layers (store w)")
  with assms obtain n where r: "r = Inr n"
    by (cases r) (auto simp: merge_layers141_def)
  from assms nl r obtain im where fi: "first_image fs (view layers h') = Inr im"
    by (cases "first_image fs (view layers h')") (auto simp: merge_layers141_def Let_def)
  from assms nl r fi have fl: "frame_loop141 fs bl fl ba fa cb (view layers h') n [0..<n]
      (w\<lparr>store := h'\<rparr>) = (Inr u, w')"
    by (simp add: merge_layers141_def Let_def)
  from normalize_layers_Inr[OF nl[unfolded r]] have ne: "layers \<noteq> []" by simp
  then obtain r0 rest where layers: "layers = r0 # rest" by (cases layers) auto
  from fi layers have "h' r0 \<noteq> []"
    by (auto simp: first_image_def view_def py_nth_def split: sum.splits if_splits)
  moreover have "length (h' r0) = n"
    using normalize_layers_length[OF nl[unfolded r], of r0] layers by simp
  ultimately have "0 < n" by auto
  with nl r fl show ?thesis by blast
qed

text \<open>
  C5 as stated (every successful run delivers 100 exactly once, as the last call) fails for
  mar143 on an empty first layer: with a frame of an interrupted earlier run still staged,
  the encoder succeeds, the run succeeds, and the callback was never called. In floating
  point, uniqueness of 100 also has a limit: in a run of \<open>2 \<cdot> 10\<^sup>1\<^sup>6\<close> frames the call before
  the last would already pass \<open>100.0\<close>.
\<close>

theorem merge_layers143_succeeds_without_progress:
  "fst (merge_layers143 (map_of []) id ffmpeg_accepts removal_succeeds [[]] 0 0 [] [] True stale) =
     Inr () \<and>
   calls (snd (merge_layers143 (map_of []) id ffmpeg_accepts removal_succeeds [[]] 0 0 [] [] True
     stale)) = [] \<and>
   py_float (rat_of_nat ((19999999999999998 + 1) * 100) / rat_of_nat 20000000000000000) = 100"
proof -
  have run: "fst (merge_layers143 (map_of []) id ffmpeg_accepts removal_succeeds [[]] 0 0 [] []
      True stale) = Inr ()"
    by code_simp
  have none: "calls (snd (merge_layers143 (map_of []) id ffmpeg_accepts removal_succeeds [[]]
      0 0 [] [] True stale)) = []"
    by code_simp
  have "py_float (1999999999999999900 / 20000000000000000) = 100"
    by code_simp
  then have "py_float (rat_of_nat ((19999999999999998 + 1) * 100) /
      rat_of_nat 20000000000000000) = 100"
    by simp
  with run none show ?thesis by blast
qed

text \<open>
  C5, amended. For every successful run with a progress callback that has at least one
  frame (every successful run of mar141's \<^verbatim>\<open>merge_layers\<close>; a run of mar143's whose
  first layer is not empty and whose pool returns every job once), the floats passed to
  the callback during the run are non-decreasing, lie in \<open>[0, 100]\<close>, and the last one is
  exactly 100; in a run of at most \<open>2\<^sup>5\<^sup>2\<close> frames, 100 occurs nowhere before the last
  call.
\<close>

theorem progress_reaches_100_once:
  "(merge_layers141 fs layers ba fa bl141 fl141 True w141 = (Inr (), w141') \<longrightarrow>
      (\<exists>ps. progress w141' = progress w141 @ ps \<and> ps \<noteq> [] \<and> sorted ps \<and>
            (\<forall>v\<in>set ps. 0 \<le> v \<and> v \<le> 100) \<and> last ps = 100 \<and>
            (length ps \<le> 2 ^ 52 \<longrightarrow> 100 \<notin> set (butlast ps)))) \<and>
   ((\<forall>js. mset (sched js) = mset js) \<and> hd image_paths \<noteq> [] \<and>
    merge_layers143 fs sched ffmpeg_ok remove image_paths ba fa bl fl True w = (Inr (), w') \<longrightarrow>
      (\<exists>ps. calls w' = calls w @ ps \<and> ps \<noteq> [] \<and> sorted ps \<and>
            (\<forall>v\<in>set ps. 0 \<le> v \<and> v \<le> 100) \<and> last ps = 100 \<and>
            (length ps \<le> 2 ^ 52 \<longrightarrow> 100 \<notin> set (butlast ps))))"
proof (intro conjI impI)
  assume run: "merge_layers141 fs layers ba fa bl141 fl141 True w141 = (Inr (), w141')"
  from merge_layers141_Inr[OF run] obtain n h' where
    n: "0 < n" and
    fl: "frame_loop141 fs bl141 fl141 ba fa True (view layers h') n [0..<n]
           (w141\<lparr>store := h'\<rparr>) = (Inr (), w141')"
    by blast
  define ps where
    "ps = map (\<lambda>i. py_float (py_float (rat_of_nat (i + 1) / rat_of_nat n) * 100)) [0..<n]"
  have len: "length ps = n" by (simp add: ps_def)
  from frame_loop141_progress[OF fl] have "progress w141' = progress w141 @ ps"
    by (simp add: ps_def)
  then have app: "progress w141' = progress w141 @ ps" .
  from percent141_props[OF n] have "ps \<noteq> [] \<and> sorted ps \<and>
      (\<forall>v\<in>set ps. 0 \<le> v \<and> v \<le> 100) \<and> last ps = 100 \<and>
      (n \<le> 2 ^ 52 \<longrightarrow> 100 \<notin> set (butlast ps))"
    unfolding ps_def .
  then have "ps \<noteq> [] \<and> sorted ps \<and>
      (\<forall>v\<in>set ps. 0 \<le> v \<and> v \<le> 100) \<and> last ps = 100 \<and>
      (length ps \<le> 2 ^ 52 \<longrightarrow> 100 \<notin> set (butlast ps))"
    unfolding len .
  with app show "\<exists>ps. progress w141' = progress w141 @ ps \<and> ps \<noteq> [] \<and>
      sorted ps \<and> (\<forall>v\<in>set ps. 0 \<le> v \<and> v \<le> 100) \<and> last ps = 100 \<and>
      (length ps \<le> 2 ^ 52 \<longrightarrow> 100 \<notin> set (butlast ps))"
    by blast
next
  assume a: "(\<forall>js. mset (sched js) = mset js) \<and> hd image_paths \<noteq> [] \<and>
    merge_layers143 fs sched ffmpeg_ok remove image_paths ba fa bl fl True w = (Inr (), w')"
  then have perm: "\<And>js. mset (sched js) = mset js" and ne: "hd image_paths \<noteq> []"
    and run: "merge_layers143 fs sched ffmpeg_ok remove image_paths ba fa bl fl True w =
      (Inr (), w')"
    by blast+
  from merge_layers143_Inr[OF run] obtain es w0 w1 u1 where
    w0: "w0 = w\<lparr>temp := Directory es, log := log w @ [MakeDirs]\<rparr>" and
    tb: "try_body fs sched ffmpeg_ok image_paths ba fa bl fl True w0 = (Inr u1, w1)" and
    c1: "calls w' = calls w1"
    by blast
  from try_body_Inr[OF tb] obtain n frame_data w2 u2 where
    pfd: "prepare_frame_data image_paths = Inr (n, frame_data)" and
    pl: "pool_loop fs bl fl ba fa True n 0 (sched frame_data) w0 = (Inr u2, w2)" and
    c2: "calls w1 = calls w2"
    by blast
  from pfd have n: "n = length (hd image_paths)" and len: "length frame_data = n"
    by (auto simp: prepare_frame_data_eq split: if_splits)
  from ne n have npos: "0 < n" by simp
  define ps where
    "ps = map (\<lambda>j. py_float (rat_of_nat ((j + 1) * 100) / rat_of_nat n)) [0..<n]"
  have lps: "length ps = n" by (simp add: ps_def)
  have "length (sched frame_data) = n"
    using perm[of frame_data] len by (metis mset_eq_length)
  with pool_loop_calls[OF pl]
  have "calls w2 = calls w0 @ ps"
    by (simp add: ps_def)
  then have "calls w' = calls w @ ps"
    by (simp add: c1 c2 w0)
  then have app: "calls w' = calls w @ ps" .
  from percent143_props[OF npos] have "ps \<noteq> [] \<and> sorted ps \<and>
      (\<forall>v\<in>set ps. 0 \<le> v \<and> v \<le> 100) \<and> last ps = 100 \<and>
      (n \<le> 2 ^ 52 \<longrightarrow> 100 \<notin> set (butlast ps))"
    unfolding ps_def .
  then have "ps \<noteq> [] \<and> sorted ps \<and>
      (\<forall>v\<in>set ps. 0 \<le> v \<and> v \<le> 100) \<and> last ps = 100 \<and>
      (length ps \<le> 2 ^ 52 \<longrightarrow> 100 \<notin> set (butlast ps))"
    unfolding lps .
  with app show "\<exists>ps. calls w' = calls w @ ps \<and> ps \<noteq> [] \<and>
      sorted ps \<and> (\<forall>v\<in>set ps. 0 \<le> v \<and> v \<le> 100) \<and> last ps = 100 \<and>
      (length ps \<le> 2 ^ 52 \<longrightarrow> 100 \<notin> set (butlast ps))"
    by blast
qed

theorem progress_reaches_100_once_witness:
  "fst (merge_layers141 (map_of [(''a0'', (2, 2)), (''a1'', (2, 2)), (''b0'', (2, 2))]) [0, 1]
          0 0 None None True
          \<lparr>store = alloc [[''a0'', ''a1''], [''b0'']], video = [], progress = []\<rparr>) = Inr () \<and>
   (\<exists>ps. progress (snd (merge_layers141
          (map_of [(''a0'', (2, 2)), (''a1'', (2, 2)), (''b0'', (2, 2))]) [0, 1]
          0 0 None None True
          \<lparr>store = alloc [[''a0'', ''a1''], [''b0'']], video = [], progress = []\<rparr>)) = ps \<and>
      ps = [50, 100] \<and> sorted ps \<and> last ps = 100 \<and> 100 \<notin> set (butlast ps)) \<and>
   fst (merge_layers143 (map_of [(''a0'', (2, 2)), (''a1'', (2, 2)), (''b0'', (2, 2))]) rev
          ffmpeg_accepts removal_succeeds [[''a0'', ''a1''], [''b0'', ''b0'']] 0 0 [] [] True fresh) =
     Inr () \<and>
   (\<exists>ps. calls (snd (merge_layers143
          (map_of [(''a0'', (2, 2)), (''a1'', (2, 2)), (''b0'', (2, 2))]) rev
          ffmpeg_accepts removal_succeeds [[''a0'', ''a1''], [''b0'', ''b0'']] 0 0 [] [] True
          fresh)) = ps \<and>
      ps = [50, 100] \<and> sorted ps \<and> last ps = 100 \<and> 100 \<notin> set (butlast ps))"
proof -
  let ?fs = "map_of [(''a0'', (2::nat, 2::nat)), (''a1'', (2, 2)), (''b0'', (2, 2))]"
  let ?w = "\<lparr>store = alloc [[''a0'', ''a1''], [''b0'']], video = [], progress = []\<rparr>"
  let ?r141 = "merge_layers141 ?fs [0, 1] 0 0 None None True ?w"
  let ?ls = "[[''a0'', ''a1''], [''b0'', ''b0'']]"
  let ?r143 = "merge_layers143 ?fs rev ffmpeg_accepts removal_succeeds ?ls 0 0 [] [] True fresh"
  have ok1: "fst ?r141 = Inr ()" by code_simp
  have p1: "progress (snd ?r141) = [50, 100]" by code_simp
  have ok3: "fst ?r143 = Inr ()" by code_simp
  have p3: "calls (snd ?r143) = [50, 100]" by code_simp
  from ok1 have run1: "?r141 = (Inr (), snd ?r141)" by (simp add: prod_eq_iff)
  from ok3 have run3: "?r143 = (Inr (), snd ?r143)" by (simp add: prod_eq_iff)
  have hyp3: "(\<forall>js::job list. mset (rev js) = mset js) \<and> hd ?ls \<noteq> [] \<and>
      ?r143 = (Inr (), snd ?r143)"
    using run3 by simp
  note inst = progress_reaches_100_once[where fs = ?fs and layers = "[0, 1]" and ba = 0 and fa = 0
      and ?bl141.0 = None and ?fl141.0 = None and ?w141.0 = ?w and ?w141' = "snd ?r141"
      and sched = rev and ffmpeg_ok = ffmpeg_accepts and remove = removal_succeeds
      and image_paths = ?ls and bl = "[]" and fl = "[]" and w = fresh and w' = "snd ?r143"]
  from inst run1 obtain ps1 where
    a1: "progress (snd ?r141) = progress ?w @ ps1" and
    b1: "sorted ps1" "last ps1 = 100" and
    c1: "length ps1 \<le> 2 ^ 52 \<longrightarrow> 100 \<notin> set (butlast ps1)"
    by blast
  from inst hyp3 obtain ps3 where
    a3: "calls (snd ?r143) = calls fresh @ ps3" and
    b3: "sorted ps3" "last ps3 = 100" and
    c3: "length ps3 \<le> 2 ^ 52 \<longrightarrow> 100 \<notin> set (butlast ps3)"
    by blast
  from a1 p1 have e1: "ps1 = [50, 100]" by simp
  from a3 p3 have e3: "ps3 = [50, 100]" by (simp add: fresh_def)
  from c1 e1 have d1: "100 \<notin> set (butlast ps1)" by simp
  from c3 e3 have d3: "100 \<notin> set (butlast ps3)" by simp
  from ok1 p1 e1 b1 d1 ok3 p3 e3 b3 d3 show ?thesis by blast
qed

end
